theory Spec2Isabelle
  imports Main "HOL-Library.Multiset"
begin

section \<open>Conventions\<close>

text \<open>
  The sources are JavaScript. A string is a list of characters, each a code unit in
  the Latin-1 range; a number that the program uses as a priority or a port is an
  integer of magnitude at most \<open>2 ^ 53\<close>, the range in which the numbers of
  JavaScript hold integers exactly; \<open>undefined\<close> is \<open>None\<close>; an array is a list;
  an object with a fixed set of fields is a record. The objects that module files export
  are shared through the module cache of \<open>require\<close>, which the loaders thread as an
  explicit store; every other mutation returns the updated value. A function that logs,
  registers or throws returns what it logged or registered together with its result.
\<close>

section \<open>Errors\<close>

text \<open>
  Everything the JavaScript sources throw is a value of \<open>js_error\<close>: the
  \<open>Error\<close> objects the repository creates itself, the \<open>TypeError\<close> of
  reading a property of \<open>undefined\<close> or spreading a non-iterable, the
  \<open>ReferenceError\<close> of an identifier that nothing binds, whatever a module
  throws while it is being loaded by \<open>require\<close> or a driver throws while it opens
  a database, and the failures of \<open>readdirSync\<close>. A function that can throw
  returns \<open>js_error + 'a\<close>, with \<open>Inl\<close> for the thrown value.
\<close>

datatype js_error =
    Error string
  | TypeError string
  | ReferenceError string
  | LoadError string
  | FsError string

section \<open>ServerManager: the directory lists (src/app.js, class ServerManager)\<close>

text \<open>
  The private fields of the class. \<open>port\<close> is a number; the constructor refuses a
  falsy one (\<open>0\<close>).
\<close>

record server_manager =
  vhostDirectories :: "string list"
  port :: int
  routeDirectories :: "string list"
  staticDirectories :: "string list"
  useDirectories :: "string list"
  settingsDir :: "string option"

definition new_manager :: "int \<Rightarrow> server_manager" where
  "new_manager p =
     \<lparr> vhostDirectories = [], port = p, routeDirectories = [],
       staticDirectories = [], useDirectories = [], settingsDir = None \<rparr>"

definition constructor :: "int \<Rightarrow> js_error + server_manager" where
  "constructor p = (if p = 0 then Inl (Error ''0 is not a valid port.'') else Inr (new_manager p))"

text \<open>
  \<open>path.isAbsolute\<close> of Node on POSIX: the path is not empty and starts with a slash.
\<close>

definition isAbsolute :: "string \<Rightarrow> bool" where
  "isAbsolute p = (case p of [] \<Rightarrow> False | c # _ \<Rightarrow> c = CHR ''/'')"

text \<open>
  \<open>Array.prototype.includes\<close> on an array of strings, and \<open>push\<close> guarded by it.
\<close>

definition array_includes :: "string list \<Rightarrow> string \<Rightarrow> bool" where
  "array_includes xs d = (d \<in> set xs)"

definition push_new :: "string list \<Rightarrow> string \<Rightarrow> string list" where
  "push_new xs d = (if \<not> array_includes xs d then xs @ [d] else xs)"

text \<open>
  Each registration returns the error it throws, if any, together with the manager
  after the call. The \<open>throw\<close> comes before any assignment, so the manager is the one
  passed in.
\<close>

definition addRouteDirectory :: "string \<Rightarrow> server_manager \<Rightarrow> js_error option \<times> server_manager" where
  "addRouteDirectory dir m =
     (if \<not> isAbsolute dir then (Some (Error ''Provided path was not absolute.''), m)
      else (None, m\<lparr> routeDirectories := push_new (routeDirectories m) dir \<rparr>))"

definition addUseDirectory :: "string \<Rightarrow> server_manager \<Rightarrow> js_error option \<times> server_manager" where
  "addUseDirectory dir m =
     (if \<not> isAbsolute dir then (Some (Error ''Provided path was not absolute.''), m)
      else (None, m\<lparr> useDirectories := push_new (useDirectories m) dir \<rparr>))"

definition addStaticDirectory :: "string \<Rightarrow> server_manager \<Rightarrow> js_error option \<times> server_manager" where
  "addStaticDirectory dir m =
     (if \<not> isAbsolute dir then (Some (Error ''Provided path was not absolute.''), m)
      else (None, m\<lparr> staticDirectories := push_new (staticDirectories m) dir \<rparr>))"

definition addVhostDirectory :: "string \<Rightarrow> server_manager \<Rightarrow> js_error option \<times> server_manager" where
  "addVhostDirectory dir m =
     (if \<not> isAbsolute dir then (Some (Error ''Provided path was not absolute.''), m)
      else (None, m\<lparr> vhostDirectories := push_new (vhostDirectories m) dir \<rparr>))"

text \<open>
  A call of one of the four registrations, and a sequence of such calls made by a
  caller that carries on after a refused one.
\<close>

datatype directory_call =
    AddRoute string
  | AddUse string
  | AddStatic string
  | AddVhost string

fun perform :: "directory_call \<Rightarrow> server_manager \<Rightarrow> js_error option \<times> server_manager" where
  "perform (AddRoute d) m = addRouteDirectory d m"
| "perform (AddUse d) m = addUseDirectory d m"
| "perform (AddStatic d) m = addStaticDirectory d m"
| "perform (AddVhost d) m = addVhostDirectory d m"

fun argument :: "directory_call \<Rightarrow> string" where
  "argument (AddRoute d) = d"
| "argument (AddUse d) = d"
| "argument (AddStatic d) = d"
| "argument (AddVhost d) = d"

fun perform_all :: "directory_call list \<Rightarrow> server_manager \<Rightarrow> server_manager" where
  "perform_all [] m = m"
| "perform_all (c # cs) m = perform_all cs (snd (perform c m))"

definition duplicate_free :: "server_manager \<Rightarrow> bool" where
  "duplicate_free m =
     (distinct (routeDirectories m) \<and> distinct (useDirectories m) \<and>
      distinct (staticDirectories m) \<and> distinct (vhostDirectories m))"

section \<open>DatabaseManager (src/managers/DatabaseManager.js)\<close>

text \<open>
  The static fields \<open>#ready\<close> and \<open>#path\<close>. The field \<open>#path\<close> is called
  \<open>db_path\<close> here, since handler modules have a field \<open>path\<close> of their own.
\<close>

record database_manager =
  ready :: bool
  db_path :: string

text \<open>
  What \<open>operation\<close> does to the database driver, in order: the connection is opened
  on a path, the function is applied to it, the connection is closed.
\<close>

datatype db_event = Opened string | Applied | Closed

text \<open>
  \<open>connect\<close> stands for the driver (\<open>require("better-sqlite3")\<close>), which returns a
  connection or throws; \<open>f\<close> for the function of the caller, which returns a value
  or throws. The driver is called before the \<open>try\<close> block: when it throws there is
  no connection, and its error leaves \<open>operation\<close> as it is. Closing a connection
  does not throw.
\<close>

definition operation ::
  "database_manager \<Rightarrow> (string \<Rightarrow> js_error + 'db) \<Rightarrow> ('db \<Rightarrow> js_error + 'a)
   \<Rightarrow> db_event list \<times> (js_error + 'a)" where
  "operation m connect f =
     (if \<not> ready m then ([], Inl (Error ''the database handler has not been initialised''))
      else
        (case connect (db_path m) of
           Inl e \<Rightarrow> ([], Inl e)
         | Inr db \<Rightarrow>
             (case f db of
                Inl e \<Rightarrow> ([Opened (db_path m), Applied, Closed], Inl e)
              | Inr output \<Rightarrow> ([Opened (db_path m), Applied, Closed], Inr output))))"

text \<open>
  \<open>init\<close> stores the path, sets \<open>#ready\<close> and then runs \<open>operation\<close> to create
  the tables, of which \<open>#tableDefinitions\<close> lists none. It returns the manager after
  the call and the error thrown, if any: when the driver throws, \<open>#ready\<close> stays set.
\<close>

definition init ::
  "string \<Rightarrow> (string \<Rightarrow> js_error + 'db) \<Rightarrow> database_manager \<Rightarrow> database_manager \<times> js_error option" where
  "init dbPath connect m =
     (if dbPath = [] then (m, Some (Error ''no database path provided''))
      else
        let m' = \<lparr> ready = True, db_path = dbPath \<rparr> in
        (case snd (operation m' connect (\<lambda>db. Inr ())) of
           Inl e \<Rightarrow> (m', Some e)
         | Inr u \<Rightarrow> (m', None)))"

section \<open>The reverse proxy handler module (src/unnamed/part_000)\<close>

subsection \<open>String.prototype.replace with a string pattern\<close>

text \<open>
  \<open>indexOf\<close> is the position of the first occurrence of the pattern; the empty
  pattern occurs at position 0.
\<close>

fun indexOf :: "string \<Rightarrow> string \<Rightarrow> nat option" where
  "indexOf [] pat = (if pat = [] then Some 0 else None)"
| "indexOf (c # s) pat =
     (if take (length pat) (c # s) = pat then Some 0 else map_option Suc (indexOf s pat))"

text \<open>
  The replacement text is a template (GetSubstitution of ECMAScript): \<open>$$\<close> is a
  dollar sign, \<open>$&\<close> the matched text, a dollar sign followed by a backquote the text
  before the match, a dollar sign followed by a quote the text after it. With a string
  pattern there are no capture groups, so every other dollar sign stands for itself.
\<close>

fun getSubstitution :: "string \<Rightarrow> string \<Rightarrow> string \<Rightarrow> string \<Rightarrow> string" where
  "getSubstitution matched before after [] = []"
| "getSubstitution matched before after [c] = [c]"
| "getSubstitution matched before after (c # d # t) =
     (if c = CHR ''$'' \<and> d = CHR ''$'' then CHR ''$'' # getSubstitution matched before after t
      else if c = CHR ''$'' \<and> d = CHR ''&'' then matched @ getSubstitution matched before after t
      else if c = CHR ''$'' \<and> d = CHR 0x60 then before @ getSubstitution matched before after t
      else if c = CHR ''$'' \<and> d = CHR 0x27 then after @ getSubstitution matched before after t
      else c # getSubstitution matched before after (d # t))"

text \<open>
  \<open>s.replace(pat, rep)\<close> for strings \<open>pat\<close> and \<open>rep\<close>: the first occurrence of
  \<open>pat\<close>, if there is one, is replaced by the expanded template; the rest of \<open>s\<close>
  is kept.
\<close>

definition replace :: "string \<Rightarrow> string \<Rightarrow> string \<Rightarrow> string" where
  "replace s pat rep =
     (case indexOf s pat of
        None \<Rightarrow> s
      | Some i \<Rightarrow>
          take i s
          @ getSubstitution pat (take i s) (drop (i + length pat) s) rep
          @ drop (i + length pat) s)"

subsection \<open>The header decorator\<close>

text \<open>
  A header value of Node is a string, an array of strings (\<open>set-cookie\<close>) or a
  number. The headers object is the list of its own keys with their values, in the
  order of \<open>Object.keys\<close>.
\<close>

datatype header_value =
    StringValue string
  | ArrayValue "string list"
  | NumberValue int

type_synonym headers = "(string \<times> header_value) list"

fun rewrite_value :: "string \<Rightarrow> string \<Rightarrow> header_value \<Rightarrow> header_value" where
  "rewrite_value localname hostname (StringValue s) = StringValue (replace s localname hostname)"
| "rewrite_value localname hostname v = v"

definition userResHeaderDecorator :: "string \<Rightarrow> string \<Rightarrow> headers \<Rightarrow> headers" where
  "userResHeaderDecorator localname hostname hs =
     map (\<lambda>(x, v). (x, rewrite_value localname hostname v)) hs"

subsection \<open>The middleware\<close>

text \<open>
  The table \<open>mappings\<close> maps a hostname to its \<open>localhost\<close> column; the prepared
  statement's \<open>get\<close> returns the row of the hostname or \<open>undefined\<close>. For a
  hostname without a row the middleware calls the continuation and goes on to read
  \<open>localname.localhost\<close>. For a hostname with a row it calls \<open>proxy\<close>, an
  identifier that no statement of the module binds: evaluating the call throws before
  the request is handed to anything, and the header decorator above, an argument of
  that call, is not reached.
\<close>

type_synonym mappings = "string \<Rightarrow> string option"

datatype middleware_event = CallNext

definition proxyUse ::
  "database_manager \<Rightarrow> (string \<Rightarrow> js_error + mappings) \<Rightarrow> string
   \<Rightarrow> middleware_event list \<times> (js_error + unit)" where
  "proxyUse m connect hostname =
     (case snd (operation m connect (\<lambda>db. Inr (db hostname))) of
        Inl e \<Rightarrow> ([], Inl e)
      | Inr localname \<Rightarrow>
          let called = (if localname = None then [CallNext] else []) in
          (case localname of
             None \<Rightarrow> (called, Inl (TypeError ''Cannot read properties of undefined (reading localhost)''))
           | Some localhost \<Rightarrow> (called, Inl (ReferenceError ''proxy is not defined''))))"

section \<open>Handler and middleware modules\<close>

text \<open>
  A JavaScript function is an opaque value; the model names it by a number. An element
  of a handler's \<open>use\<close> array is a function or the name of a directory of middleware
  modules, or an array of these, which \<open>flat()\<close> splices in.
\<close>

type_synonym handler = nat

datatype use_ref = UseFunction handler | UseName string

datatype use_item = Ref use_ref | Group "use_ref list"

datatype method_value = Function handler | NotFunction

text \<open>
  The object a module file exports, with the fields the loaders read and write: those
  of a \<open>RouteObject\<close>, those of a middleware module, and \<open>type\<close>,
  \<open>validMethods\<close> and \<open>filename\<close>, which \<open>loadRoutes\<close> adds. \<open>None\<close> is
  \<open>undefined\<close>.
\<close>

record module =
  path :: "string option"
  priority :: "int option"
  static :: "string list option"
  use :: "use_item list option"
  startingUsePriority :: "int option"
  specificUsePriorities :: "int list option"
  methods :: "(string \<times> method_value) list option"
  run :: "handler option"
  name :: "string option"
  type :: "string option"
  validMethods :: "string list option"
  filename :: "string option"

fun flat :: "use_item list \<Rightarrow> use_ref list" where
  "flat [] = []"
| "flat (Ref u # us) = u # flat us"
| "flat (Group g # us) = g @ flat us"

text \<open>
  The empty object; a module is written as an update of it, field by field, as an
  object literal is.
\<close>

definition object :: module where
  "object =
     \<lparr> path = None, priority = None, static = None, use = None, startingUsePriority = None,
       specificUsePriorities = None, methods = None, run = None, name = None,
       type = None, validMethods = None, filename = None \<rparr>"

section \<open>The file system and the module cache\<close>

text \<open>
  A directory entry is a file or a directory with its own entries, in the order
  \<open>readdirSync\<close> lists them. Each entry carries its name and what loading it as a
  module gives the first time: the exported object, or the error thrown.
  \<open>filesystem\<close> resolves the absolute paths the program starts from; below them the
  loaders walk the tree. \<open>join\<close> is \<open>path.join\<close> on a normalised directory path
  and a name.
\<close>

datatype fsnode =
    File string "js_error + module"
  | Dir string "js_error + module" "fsnode list"

type_synonym filesystem = "string \<Rightarrow> fsnode option"

fun filepath :: "fsnode \<Rightarrow> string" where
  "filepath (File n l) = n"
| "filepath (Dir n l cs) = n"

fun isDirectory :: "fsnode \<Rightarrow> bool" where
  "isDirectory (File n l) = False"
| "isDirectory (Dir n l cs) = True"

fun load :: "fsnode \<Rightarrow> js_error + module" where
  "load (File n l) = l"
| "load (Dir n l cs) = l"

fun readdir :: "fsnode \<Rightarrow> js_error + fsnode list" where
  "readdir (File n l) = Inl (FsError ''ENOTDIR'')"
| "readdir (Dir n l cs) = Inr cs"

definition readdirSync :: "filesystem \<Rightarrow> string \<Rightarrow> js_error + fsnode list" where
  "readdirSync fs dir = (case fs dir of None \<Rightarrow> Inl (FsError ''ENOENT'') | Some node \<Rightarrow> readdir node)"

definition join :: "string \<Rightarrow> string \<Rightarrow> string" where
  "join dir fp = dir @ ''/'' @ fp"

text \<open>
  \<open>filepath.split(".").pop() === "js"\<close>: the text after the last dot, or the whole
  name when it has no dot, is \<open>js\<close>.
\<close>

definition isJs :: "string \<Rightarrow> bool" where
  "isJs fp = (takeWhile (\<lambda>c. c \<noteq> CHR ''.'') (rev fp) = rev ''js'')"

text \<open>
  The module cache maps the path of a loaded file to the object it exported, as the
  loaders have changed it since. An element of \<open>toLoad\<close> or of a \<open>getUses\<close>
  result is a reference to a cached object, or an object of its own that nothing else
  refers to (the \<open>{run: dir}\<close> that \<open>getUses\<close> makes for an inline function).
  \<open>deref\<close> reads the object and \<open>assign\<close> writes fields of it; a reference
  is only made by \<open>require\<close>, so it always finds its object.
\<close>

type_synonym cache = "string \<Rightarrow> module option"

datatype item = Cached string | Own module

fun deref :: "cache \<Rightarrow> item \<Rightarrow> module" where
  "deref c (Cached p) = (case c p of Some v \<Rightarrow> v | None \<Rightarrow> object)"
| "deref c (Own v) = v"

fun assign :: "cache \<Rightarrow> item \<Rightarrow> (module \<Rightarrow> module) \<Rightarrow> cache \<times> item" where
  "assign c (Cached p) f = (c(p \<mapsto> f (deref c (Cached p))), Cached p)"
| "assign c (Own v) f = (c, Own (f v))"

text \<open>
  \<open>require\<close> of a path: the cached object if the file has been loaded, else the
  file is loaded and, unless that throws, its object is cached.
\<close>

definition require :: "cache \<Rightarrow> string \<Rightarrow> fsnode \<Rightarrow> cache \<times> (js_error + item)" where
  "require c p node =
     (case c p of
        Some v \<Rightarrow> (c, Inr (Cached p))
      | None \<Rightarrow>
          (case load node of
             Inl e \<Rightarrow> (c, Inl e)
           | Inr v \<Rightarrow> (c(p \<mapsto> v), Inr (Cached p))))"

text \<open>
  The log lines of the two scanning loops, by level and cause. A loop that loads
  modules, logs and may throw returns the cache after it, the lines logged, and the
  thrown error or the value.
\<close>

datatype log_entry =
    ErrorWhileLoading string js_error
  | WarnNoFunction string
  | WarnNoPath string
  | InfoNoPriority string
  | WarnNoMethods string

type_synonym 'a logged = "cache \<times> log_entry list \<times> (js_error + 'a)"

section \<open>Array.prototype.sort\<close>

text \<open>
  \<open>sort\<close> with a comparison function is stable: an element moves behind another one
  only if the comparison of the two is positive. With a consistent comparison the
  result is the one of insertion sort.
\<close>

fun insert_by :: "('a \<Rightarrow> 'a \<Rightarrow> int) \<Rightarrow> 'a \<Rightarrow> 'a list \<Rightarrow> 'a list" where
  "insert_by cmp x [] = [x]"
| "insert_by cmp x (y # ys) = (if cmp x y > 0 then y # insert_by cmp x ys else x # y # ys)"

definition array_sort :: "('a \<Rightarrow> 'a \<Rightarrow> int) \<Rightarrow> 'a list \<Rightarrow> 'a list" where
  "array_sort cmp xs = foldr (insert_by cmp) xs []"

text \<open>
  \<open>(a, b) => b.priority - a.priority\<close>, the comparison of both sorts of the class,
  on the objects as they are when the sort runs; a difference that is not a number
  counts as zero for \<open>sort\<close>.
\<close>

definition compare_priority :: "cache \<Rightarrow> item \<Rightarrow> item \<Rightarrow> int" where
  "compare_priority c a b =
     (case (priority (deref c b), priority (deref c a)) of
        (Some pb, Some pa) \<Rightarrow> pb - pa
      | _ \<Rightarrow> 0)"

section \<open>ServerManager: getUses (src/app.js)\<close>

text \<open>
  \<open>!use.priority\<close>: the priority is undefined or zero.
\<close>

definition falsy :: "int option \<Rightarrow> bool" where
  "falsy p = (p = None \<or> p = Some 0)"

text \<open>
  The body of the inner loop for a file with the extension: the module is required
  inside \<open>try\<close>; a failure is logged and leaves \<open>use\<close> undefined, and the next
  statement reads \<open>use.run\<close>. A module with a function gets the priority 0 written
  into it when it has none, and is pushed.
\<close>

definition loadUse :: "cache \<Rightarrow> string \<Rightarrow> fsnode \<Rightarrow> item list \<Rightarrow> item list logged" where
  "loadUse c dir node toLoad =
     (case require c (join dir (filepath node)) node of
        (c1, Inl e) \<Rightarrow>
          (c1, [ErrorWhileLoading (filepath node) e],
           Inl (TypeError ''Cannot read properties of undefined (reading run)''))
      | (c1, Inr u) \<Rightarrow>
          if run (deref c1 u) = None then (c1, [WarnNoFunction (filepath node)], Inr toLoad)
          else if falsy (priority (deref c1 u)) then
            (case assign c1 u (\<lambda>v. v\<lparr> priority := Some 0 \<rparr>) of
               (c2, u') \<Rightarrow> (c2, [], Inr (toLoad @ [u'])))
          else (c1, [], Inr (toLoad @ [u])))"

text \<open>
  The loop over the files of the directory \<open>dir\<close>, with \<open>toLoad\<close> as built so far.
  For a subdirectory \<open>getUses\<close> calls itself on it: the nested call scans the
  subdirectory with a \<open>toLoad\<close> of its own, and what it returns (\<open>nested\<close>) is not
  used; what it has loaded stays in the cache.
\<close>

fun scanUses :: "cache \<Rightarrow> string \<Rightarrow> fsnode list \<Rightarrow> item list \<Rightarrow> item list logged" where
  "scanUses c dir [] toLoad = (c, [], Inr toLoad)"
| "scanUses c dir (File n l # files) toLoad =
     (if \<not> isJs n then scanUses c dir files toLoad
      else
        (case loadUse c dir (File n l) toLoad of
           (c1, logs, Inl e) \<Rightarrow> (c1, logs, Inl e)
         | (c1, logs, Inr toLoad') \<Rightarrow>
             (case scanUses c1 dir files toLoad' of (c2, logs', r) \<Rightarrow> (c2, logs @ logs', r))))"
| "scanUses c dir (Dir n l cs # files) toLoad =
     (case scanUses c (join dir n) cs [] of
        (c0, logs0, Inl e) \<Rightarrow> (c0, logs0, Inl e)
      | (c0, logs0, Inr nested) \<Rightarrow>
          (if \<not> isJs n then
             (case scanUses c0 dir files toLoad of (c2, logs', r) \<Rightarrow> (c2, logs0 @ logs', r))
           else
             (case loadUse c0 dir (Dir n l cs) toLoad of
                (c1, logs, Inl e) \<Rightarrow> (c1, logs0 @ logs, Inl e)
              | (c1, logs, Inr toLoad') \<Rightarrow>
                  (case scanUses c1 dir files toLoad' of
                     (c2, logs', r) \<Rightarrow> (c2, logs0 @ logs @ logs', r)))))"

fun scanUseDirectories ::
  "cache \<Rightarrow> filesystem \<Rightarrow> string list \<Rightarrow> item list \<Rightarrow> item list logged" where
  "scanUseDirectories c fs [] toLoad = (c, [], Inr toLoad)"
| "scanUseDirectories c fs (dir # dirs) toLoad =
     (case readdirSync fs dir of
        Inl e \<Rightarrow> (c, [], Inl e)
      | Inr files \<Rightarrow>
          (case scanUses c dir files toLoad of
             (c1, logs, Inl e) \<Rightarrow> (c1, logs, Inl e)
           | (c1, logs, Inr toLoad') \<Rightarrow>
               (case scanUseDirectories c1 fs dirs toLoad' of
                  (c2, logs', r) \<Rightarrow> (c2, logs @ logs', r))))"

text \<open>
  \<open>getUses\<close> returns an array of middleware objects, or the manager itself
  (\<open>return this\<close>) when it has no middleware directory and is given an empty name.
  The array is sorted by the priorities the objects have at that moment.
\<close>

datatype uses_result = Uses "item list" | This

fun getUses :: "cache \<Rightarrow> filesystem \<Rightarrow> server_manager \<Rightarrow> use_ref \<Rightarrow> uses_result logged" where
  "getUses c fs m (UseFunction f) = (c, [], Inr (Uses [Own (object\<lparr> run := Some f \<rparr>)]))"
| "getUses c fs m (UseName dir) =
     (if useDirectories m = [] \<and> dir = [] then (c, [], Inr This)
      else
        let scanDirectories = (if dir \<noteq> [] then [dir] else routeDirectories m) in
        (case scanUseDirectories c fs scanDirectories [] of
           (c1, logs, Inl e) \<Rightarrow> (c1, logs, Inl e)
         | (c1, logs, Inr toLoad) \<Rightarrow>
             (c1, logs, Inr (Uses (array_sort (compare_priority c1) toLoad)))))"

section \<open>ServerManager: loadRoutes (src/app.js)\<close>

subsection \<open>Scanning and validation\<close>

definition recognised :: "string list" where
  "recognised =
     [''checkout'', ''copy'', ''delete'', ''get'', ''head'', ''lock'', ''merge'', ''mkactivity'',
      ''mkcol'', ''move'', ''m-search'', ''notify'', ''options'', ''patch'', ''post'', ''purge'',
      ''put'', ''report'', ''search'', ''subscribe'', ''trace'', ''unlock'', ''unsubscribe'', ''all'']"

definition truthy :: "string option \<Rightarrow> bool" where
  "truthy s = (case s of None \<Rightarrow> False | Some t \<Rightarrow> t \<noteq> [])"

text \<open>
  The body of the inner loop for a file with the extension. After a failed
  \<open>require\<close> the variable \<open>route\<close> is undefined and \<open>route.path\<close> is read;
  \<open>Object.keys\<close> throws on a module without \<open>methods\<close>. The default priority,
  \<open>validMethods\<close> and \<open>filename\<close> are written into the module object.
\<close>

definition loadRoute :: "cache \<Rightarrow> string \<Rightarrow> fsnode \<Rightarrow> item list \<Rightarrow> item list logged" where
  "loadRoute c dir node toLoad =
     (case require c (join dir (filepath node)) node of
        (c1, Inl e) \<Rightarrow>
          (c1, [ErrorWhileLoading (filepath node) e],
           Inl (TypeError ''Cannot read properties of undefined (reading path)''))
      | (c1, Inr route) \<Rightarrow>
          if \<not> truthy (path (deref c1 route)) then (c1, [WarnNoPath (filepath node)], Inr toLoad)
          else
            (case (if priority (deref c1 route) = None
                   then assign c1 route (\<lambda>v. v\<lparr> priority := Some 0 \<rparr>)
                   else (c1, route)) of
               (c2, route') \<Rightarrow>
                 let logs = (if priority (deref c1 route) = None
                             then [InfoNoPriority (filepath node)] else [])
                 in
                 (case methods (deref c2 route') of
                    None \<Rightarrow> (c2, logs, Inl (TypeError ''Cannot convert undefined or null to object''))
                  | Some ms \<Rightarrow>
                      let valid = filter (\<lambda>x. x \<in> set recognised) (map fst ms) in
                      if valid = [] then (c2, logs @ [WarnNoMethods (filepath node)], Inr toLoad)
                      else
                        (case assign c2 route'
                                (\<lambda>v. v\<lparr> validMethods := Some valid, filename := Some (filepath node) \<rparr>) of
                           (c3, route'') \<Rightarrow> (c3, logs, Inr (toLoad @ [route'']))))))"

text \<open>
  The loop over the files of the directory \<open>dir\<close>; the state is \<open>toLoad\<close> and
  \<open>scanAtPriority0\<close>, the queue of subdirectories, each with the directory that
  lists it.
\<close>

fun scanRoutes ::
  "cache \<Rightarrow> string \<Rightarrow> fsnode list \<Rightarrow> item list \<times> (string \<times> fsnode) list
   \<Rightarrow> (item list \<times> (string \<times> fsnode) list) logged" where
  "scanRoutes c dir [] (toLoad, scanAtPriority0) = (c, [], Inr (toLoad, scanAtPriority0))"
| "scanRoutes c dir (node # files) (toLoad, scanAtPriority0) =
     (let queue = (if isDirectory node then scanAtPriority0 @ [(dir, node)] else scanAtPriority0) in
      if \<not> isJs (filepath node) then scanRoutes c dir files (toLoad, queue)
      else
        (case loadRoute c dir node toLoad of
           (c1, logs, Inl e) \<Rightarrow> (c1, logs, Inl e)
         | (c1, logs, Inr toLoad') \<Rightarrow>
             (case scanRoutes c1 dir files (toLoad', queue) of
                (c2, logs', r) \<Rightarrow> (c2, logs @ logs', r))))"

text \<open>
  The loop over \<open>scanDirectories\<close>; each is given with what \<open>readdirSync\<close> returns
  or throws for it.
\<close>

fun scanRouteDirectories ::
  "cache \<Rightarrow> (string \<times> (js_error + fsnode list)) list \<Rightarrow> item list \<times> (string \<times> fsnode) list
   \<Rightarrow> (item list \<times> (string \<times> fsnode) list) logged" where
  "scanRouteDirectories c [] st = (c, [], Inr st)"
| "scanRouteDirectories c ((dir, Inl e) # dirs) st = (c, [], Inl e)"
| "scanRouteDirectories c ((dir, Inr files) # dirs) st =
     (case scanRoutes c dir files st of
        (c1, logs, Inl e) \<Rightarrow> (c1, logs, Inl e)
      | (c1, logs, Inr st') \<Rightarrow>
          (case scanRouteDirectories c1 dirs st' of (c2, logs', r) \<Rightarrow> (c2, logs @ logs', r)))"

subsection \<open>The middleware of the handlers and its priorities\<close>

text \<open>
  \<open>route.specificUsePriorities?.[specificPriorityIndex]\<close>.
\<close>

definition specificAt :: "int list option \<Rightarrow> nat \<Rightarrow> int option" where
  "specificAt specific i =
     (case specific of None \<Rightarrow> None | Some ps \<Rightarrow> if i < length ps then Some (ps ! i) else None)"

text \<open>
  \<open>fallbackPriority--\<close>: the subtraction is exact above \<open>- (2 ^ 53)\<close>; at
  \<open>- (2 ^ 53)\<close> the result is rounded back to it.
\<close>

definition decrement :: "int \<Rightarrow> int" where
  "decrement x = (if - (2 ^ 53) < x then x - 1 else x)"

text \<open>
  The loop over the objects of one \<open>getUses\<close> result; the state is
  \<open>fallbackPriority\<close> and \<open>specificPriorityIndex\<close>. \<open>type\<close> and \<open>priority\<close>
  are written into each object, so an object that is met again carries the last
  priority written.
\<close>

fun assignPriorities ::
  "cache \<Rightarrow> int list option \<Rightarrow> item list \<Rightarrow> int \<times> nat \<Rightarrow> cache \<times> item list \<times> (int \<times> nat)" where
  "assignPriorities c specific [] (fallbackPriority, specificPriorityIndex) =
     (c, [], (fallbackPriority, specificPriorityIndex))"
| "assignPriorities c specific (u # uses) (fallbackPriority, specificPriorityIndex) =
     (case specificAt specific specificPriorityIndex of
        Some q \<Rightarrow>
          (case assign c u (\<lambda>v. v\<lparr> type := Some ''use'', priority := Some q \<rparr>) of
             (c1, u') \<Rightarrow>
               (case assignPriorities c1 specific uses (fallbackPriority, specificPriorityIndex + 1) of
                  (c2, us, st) \<Rightarrow> (c2, u' # us, st)))
      | None \<Rightarrow>
          (case assign c u (\<lambda>v. v\<lparr> type := Some ''use'', priority := Some fallbackPriority \<rparr>) of
             (c1, u') \<Rightarrow>
               (case assignPriorities c1 specific uses
                       (decrement fallbackPriority, specificPriorityIndex + 1) of
                  (c2, us, st) \<Rightarrow> (c2, u' # us, st))))"

text \<open>
  The loop over \<open>route.use.flat()\<close>. Spreading the manager that \<open>getUses\<close> may
  return throws, since it is not iterable. The log lines of \<open>getUses\<close> are left out.
\<close>

fun resolveUses ::
  "cache \<Rightarrow> filesystem \<Rightarrow> server_manager \<Rightarrow> int list option \<Rightarrow> use_ref list \<Rightarrow> int \<times> nat
   \<Rightarrow> cache \<times> (js_error + item list)" where
  "resolveUses c fs m specific [] st = (c, Inr [])"
| "resolveUses c fs m specific (u # us) st =
     (case getUses c fs m u of
        (c1, logs, Inl e) \<Rightarrow> (c1, Inl e)
      | (c1, logs, Inr This) \<Rightarrow>
          (c1, Inl (TypeError ''Spread syntax requires ...iterable[Symbol.iterator] to be a function''))
      | (c1, logs, Inr (Uses uses)) \<Rightarrow>
          (case assignPriorities c1 specific uses st of
             (c2, es, st') \<Rightarrow>
               (case resolveUses c2 fs m specific us st' of
                  (c3, Inl e) \<Rightarrow> (c3, Inl e)
                | (c3, Inr es') \<Rightarrow> (c3, Inr (es @ es')))))"

text \<open>
  \<open>route.startingUsePriority || -1\<close>: an undefined and a zero starting priority both
  give \<open>-1\<close>.
\<close>

definition startingPriority :: "int option \<Rightarrow> int" where
  "startingPriority s = (case s of None \<Rightarrow> - 1 | Some p \<Rightarrow> if p = 0 then - 1 else p)"

text \<open>
  The body of the loop over \<open>toLoad\<close> for one handler, read from its object as it
  is then.
\<close>

definition localUses ::
  "cache \<Rightarrow> filesystem \<Rightarrow> server_manager \<Rightarrow> item \<Rightarrow> cache \<times> (js_error + item list)" where
  "localUses c fs m route =
     (case use (deref c route) of
        None \<Rightarrow> (c, Inr [])
      | Some us \<Rightarrow>
          if us = [] then (c, Inr [])
          else
            resolveUses c fs m (specificUsePriorities (deref c route)) (flat us)
              (startingPriority (startingUsePriority (deref c route)), 0))"

fun allUsesOf ::
  "cache \<Rightarrow> filesystem \<Rightarrow> server_manager \<Rightarrow> item list \<Rightarrow> cache \<times> (js_error + item list)" where
  "allUsesOf c fs m [] = (c, Inr [])"
| "allUsesOf c fs m (route # routes) =
     (case localUses c fs m route of
        (c1, Inl e) \<Rightarrow> (c1, Inl e)
      | (c1, Inr es) \<Rightarrow>
          (case allUsesOf c1 fs m routes of
             (c2, Inl e) \<Rightarrow> (c2, Inl e)
           | (c2, Inr es') \<Rightarrow> (c2, Inr (es @ es'))))"

subsection \<open>The merge\<close>

text \<open>
  Everything \<open>loadRoutes\<close> does before it registers: the scan, the middleware of the
  handlers, \<open>toLoad.push(...allUses)\<close> and the sort by the priorities the objects
  have after all of that. The result is the sorted \<open>toLoad\<close> and the queue of
  subdirectories. The log lines are left out.
\<close>

definition mergeLevel ::
  "cache \<Rightarrow> filesystem \<Rightarrow> server_manager \<Rightarrow> (string \<times> (js_error + fsnode list)) list
   \<Rightarrow> cache \<times> (js_error + item list \<times> (string \<times> fsnode) list)" where
  "mergeLevel c fs m scanDirectories =
     (case scanRouteDirectories c scanDirectories ([], []) of
        (c1, logs, Inl e) \<Rightarrow> (c1, Inl e)
      | (c1, logs, Inr (toLoad, scanAtPriority0)) \<Rightarrow>
          (case allUsesOf c1 fs m toLoad of
             (c2, Inl e) \<Rightarrow> (c2, Inl e)
           | (c2, Inr allUses) \<Rightarrow>
               (c2, Inr (array_sort (compare_priority c2) (toLoad @ allUses), scanAtPriority0))))"

subsection \<open>Registration\<close>

text \<open>
  What is registered on a router, in order: a static directory, a method handler at a
  path, a middleware function, or a child router with its own registrations mounted at
  a path.
\<close>

datatype registration =
    RegStatic string
  | RegMethod string string handler
  | RegUse handler
  | RegMount string "registration list"

text \<open>
  \<open>route.priority <= 0\<close>, which is false for an undefined priority.
\<close>

definition nonpositive :: "cache \<Rightarrow> item \<Rightarrow> bool" where
  "nonpositive c route = (case priority (deref c route) of None \<Rightarrow> False | Some p \<Rightarrow> p \<le> 0)"

text \<open>
  An element of \<open>toLoad\<close> is registered from its object as it is then: as a
  handler unless its \<open>type\<close> is \<open>"use"\<close>. The loop over \<open>route.validMethods\<close>
  throws when there is none, and Express throws when \<open>use\<close> is given no function.
  A handler that the scan has pushed has a path and a \<open>methods\<close> object, so the
  last case of \<open>registerMethod\<close> does not arise. A method whose value is not a
  function is skipped.
\<close>

definition registerMethod :: "module \<Rightarrow> string \<Rightarrow> registration list" where
  "registerMethod route method =
     (case (path route, methods route) of
        (Some p, Some ms) \<Rightarrow>
          (case map_of ms method of
             Some (Function f) \<Rightarrow> [RegMethod method p f]
           | _ \<Rightarrow> [])
      | _ \<Rightarrow> [])"

definition registerEntry :: "cache \<Rightarrow> item \<Rightarrow> js_error + registration list" where
  "registerEntry c e =
     (let route = deref c e in
      if type route \<noteq> Some ''use'' then
        (case validMethods route of
           None \<Rightarrow> Inl (TypeError ''route.validMethods is not iterable'')
         | Some valid \<Rightarrow>
             Inr ((case static route of None \<Rightarrow> [] | Some ds \<Rightarrow> map RegStatic ds)
                  @ concat (map (registerMethod route) valid)))
      else
        (case run route of
           None \<Rightarrow> Inl (TypeError ''Router.use() requires a middleware function'')
         | Some f \<Rightarrow> Inr [RegUse f]))"

subsection \<open>The recursion over the directory tree\<close>

text \<open>
  The queue holds entries of the scanned directories, so the child routers are built
  on smaller trees.
\<close>

definition weight :: "(string \<times> (js_error + fsnode list)) list \<Rightarrow> nat" where
  "weight dirs =
     sum_list (map (\<lambda>d. case snd d of Inl e \<Rightarrow> 0 | Inr files \<Rightarrow> size_list size files) dirs)"

definition queue_size :: "(string \<times> fsnode) list \<Rightarrow> nat" where
  "queue_size q = size_list (\<lambda>e. size (snd e)) q"

lemma scanRoutes_queue:
  "scanRoutes c dir files (toLoad, q) = (c', logs, Inr (toLoad', q')) \<Longrightarrow>
   queue_size q' \<le> queue_size q + size_list size files"
proof (induction files arbitrary: c toLoad q logs)
  case Nil
  then show ?case by simp
next
  case (Cons node files)
  show ?case
  proof (cases "isJs (filepath node)")
    case False
    with Cons.prems have
      "scanRoutes c dir files (toLoad, if isDirectory node then q @ [(dir, node)] else q)
         = (c', logs, Inr (toLoad', q'))"
      by (simp add: Let_def)
    from Cons.IH [OF this] show ?thesis by (simp add: queue_size_def split: if_splits)
  next
    case True
    with Cons.prems obtain c1 l1 t1 l2 where
      "scanRoutes c1 dir files (t1, if isDirectory node then q @ [(dir, node)] else q)
         = (c', l2, Inr (toLoad', q'))"
      by (auto simp: Let_def split: prod.splits sum.splits)
    from Cons.IH [OF this] show ?thesis by (simp add: queue_size_def split: if_splits)
  qed
qed

lemma scanRouteDirectories_queue:
  "scanRouteDirectories c dirs (toLoad, q) = (c', logs, Inr (toLoad', q')) \<Longrightarrow>
   queue_size q' \<le> queue_size q + weight dirs"
proof (induction dirs arbitrary: c toLoad q logs)
  case Nil
  then show ?case by (simp add: weight_def)
next
  case (Cons d dirs)
  obtain dir r where d: "d = (dir, r)" by (cases d)
  show ?case
  proof (cases r)
    case (Inl e)
    with Cons.prems d show ?thesis by simp
  next
    case (Inr files)
    from Cons.prems d Inr obtain c1 l1 t1 q1 l2 where
      a: "scanRoutes c dir files (toLoad, q) = (c1, l1, Inr (t1, q1))" and
      b: "scanRouteDirectories c1 dirs (t1, q1) = (c', l2, Inr (toLoad', q'))"
      by (auto split: prod.splits sum.splits)
    from scanRoutes_queue [OF a] Cons.IH [OF b] d Inr show ?thesis
      by (simp add: weight_def)
  qed
qed

lemma mergeLevel_queue:
  assumes "mergeLevel c fs m dirs = (c', Inr (toLoad, q))"
  shows "queue_size q \<le> weight dirs"
proof -
  from assms obtain c1 logs t where
    "scanRouteDirectories c dirs ([], []) = (c1, logs, Inr (t, q))"
    by (auto simp: mergeLevel_def split: sum.splits prod.splits)
  from scanRouteDirectories_queue [OF this] show ?thesis by (simp add: queue_size_def)
qed

lemma mergeLevel_queue_sym:
  "(c', Inr (toLoad, q)) = mergeLevel c fs m dirs \<Longrightarrow> queue_size q \<le> weight dirs"
  by (rule mergeLevel_queue [OF sym])

lemma weight_readdir:
  "3 * weight [(p, readdir e)] + 2 < 3 * queue_size ((dir, e) # es)"
  by (cases e) (simp_all add: weight_def queue_size_def)

text \<open>
  \<open>loadRoutes\<close> on its \<open>scanDirectories\<close>, each with its listing, returns the
  cache after it and the registrations made on its router, in order, or the error it
  throws. It mounts the queue before the loop when \<open>toLoad\<close> is empty. \<open>mountAll\<close>
  is the loop over \<open>scanAtPriority0\<close>: each subdirectory gets a new router, built
  by \<open>loadRoutes\<close> on that subdirectory and mounted at a slash followed by its name.
  \<open>registerFrom\<close> is the loop over the sorted \<open>toLoad\<close> with the flag
  \<open>dirScanned\<close>, followed by the block after the loop; an entry is registered from
  its object as it is when its turn comes, and a registration that throws ends the
  loop. The log lines, the structure returned for
  the startup dump and the random router names are left out.
\<close>

function loadRoutes ::
  "cache \<Rightarrow> filesystem \<Rightarrow> server_manager \<Rightarrow> (string \<times> (js_error + fsnode list)) list
   \<Rightarrow> cache \<times> (js_error + registration list)"
and mountAll ::
  "cache \<Rightarrow> filesystem \<Rightarrow> server_manager \<Rightarrow> (string \<times> fsnode) list
   \<Rightarrow> cache \<times> (js_error + registration list)"
and registerFrom ::
  "cache \<Rightarrow> filesystem \<Rightarrow> server_manager \<Rightarrow> (string \<times> fsnode) list \<Rightarrow> bool \<Rightarrow> item list
   \<Rightarrow> cache \<times> (js_error + registration list)"
where
  "loadRoutes c fs m scanDirectories =
     (case mergeLevel c fs m scanDirectories of
        (c1, Inl e) \<Rightarrow> (c1, Inl e)
      | (c1, Inr (toLoad, scanAtPriority0)) \<Rightarrow>
          if toLoad = [] then
            (case mountAll c1 fs m scanAtPriority0 of
               (c2, Inl e) \<Rightarrow> (c2, Inl e)
             | (c2, Inr ms) \<Rightarrow>
                 (case registerFrom c2 fs m scanAtPriority0 True toLoad of
                    (c3, Inl e) \<Rightarrow> (c3, Inl e)
                  | (c3, Inr rs) \<Rightarrow> (c3, Inr (ms @ rs))))
          else registerFrom c1 fs m scanAtPriority0 False toLoad)"
| "mountAll c fs m [] = (c, Inr [])"
| "mountAll c fs m ((dir, e) # es) =
     (case loadRoutes c fs m [(join dir (filepath e), readdir e)] of
        (c1, Inl err) \<Rightarrow> (c1, Inl err)
      | (c1, Inr childRouter) \<Rightarrow>
          (case mountAll c1 fs m es of
             (c2, Inl err) \<Rightarrow> (c2, Inl err)
           | (c2, Inr rs) \<Rightarrow> (c2, Inr (RegMount (CHR ''/'' # filepath e) childRouter # rs))))"
| "registerFrom c fs m scanAtPriority0 dirScanned [] =
     (if \<not> dirScanned then mountAll c fs m scanAtPriority0 else (c, Inr []))"
| "registerFrom c fs m scanAtPriority0 dirScanned (route # routes) =
     (if \<not> dirScanned \<and> nonpositive c route then
        (case mountAll c fs m scanAtPriority0 of
           (c1, Inl e) \<Rightarrow> (c1, Inl e)
         | (c1, Inr ms) \<Rightarrow>
             (case registerEntry c1 route of
                Inl e \<Rightarrow> (c1, Inl e)
              | Inr rs \<Rightarrow>
                  (case registerFrom c1 fs m scanAtPriority0 True routes of
                     (c2, Inl e) \<Rightarrow> (c2, Inl e)
                   | (c2, Inr rs') \<Rightarrow> (c2, Inr (ms @ rs @ rs')))))
      else
        (case registerEntry c route of
           Inl e \<Rightarrow> (c, Inl e)
         | Inr rs \<Rightarrow>
             (case registerFrom c fs m scanAtPriority0 dirScanned routes of
                (c1, Inl e) \<Rightarrow> (c1, Inl e)
              | (c1, Inr rs') \<Rightarrow> (c1, Inr (rs @ rs')))))"
  by pat_completeness auto
termination
proof (relation "inv_image (less_than <*lex*> less_than) (\<lambda>x. case x of
          Inl (c, fs, m, dirs) \<Rightarrow> (3 * weight dirs + 2, 0)
        | Inr (Inl (c, fs, m, q)) \<Rightarrow> (3 * queue_size q, 0)
        | Inr (Inr (c, fs, m, q, d, routes)) \<Rightarrow> (3 * queue_size q + 1, length routes))",
       goal_cases)
  case 1
  show ?case by (intro wf_inv_image wf_lex_prod wf_less_than)
next
  case 2
  then show ?case by (auto dest!: mergeLevel_queue_sym)
next
  case 3
  then show ?case by (auto dest!: mergeLevel_queue_sym)
next
  case 4
  then show ?case by (auto dest!: mergeLevel_queue_sym)
next
  case (5 c fs m dir e es)
  show ?case using weight_readdir [of "join dir (filepath e)" e dir es] by simp
next
  case 6
  show ?case by (simp add: queue_size_def)
qed simp_all

declare loadRoutes.simps [simp del]

text \<open>
  The call from \<open>setupFromState\<close>, with no directory given: nothing is done when the
  manager has no route directory.
\<close>

definition loadRoutesTop ::
  "cache \<Rightarrow> filesystem \<Rightarrow> server_manager \<Rightarrow> cache \<times> (js_error + registration list)" where
  "loadRoutesTop c fs m =
     (if routeDirectories m = [] then (c, Inr [])
      else loadRoutes c fs m (map (\<lambda>dir. (dir, readdirSync fs dir)) (routeDirectories m)))"





section \<open>ServerManager: loadVhosts (src/app.js)\<close>

text \<open>
  The regular expression \<open>(\S+)\.{}\<close>: one or more characters that are not white space,
  as many as possible, followed by a dot and the two braces, which stand for themselves.
  \<open>vhostMatch\<close> is the first group of the leftmost match.
\<close>

definition isSpace :: "char \<Rightarrow> bool" where
  "isSpace c = (c \<in> set [CHR 0x09, CHR 0x0A, CHR 0x0B, CHR 0x0C, CHR 0x0D, CHR 0x20, CHR 0xA0])"

fun backtrack :: "string \<Rightarrow> nat \<Rightarrow> string option" where
  "backtrack s 0 = None"
| "backtrack s (Suc k) =
     (if take 3 (drop (Suc k) s) = ''.{}'' then Some (take (Suc k) s) else backtrack s k)"

definition matchHere :: "string \<Rightarrow> string option" where
  "matchHere s = backtrack s (length (takeWhile (\<lambda>c. \<not> isSpace c) s))"

fun vhostMatch :: "string \<Rightarrow> string option" where
  "vhostMatch [] = None"
| "vhostMatch (c # s) =
     (case matchHere (c # s) of Some g \<Rightarrow> Some g | None \<Rightarrow> vhostMatch s)"

text \<open>
  \<open>app.use(vhost(hostname, router))\<close>: the hostname and the registrations of the
  router built for it.
\<close>

datatype vhost_registration = RegVhost string "registration list"

text \<open>
  The three nested loops of \<open>loadVhosts\<close>, innermost first. Each returns the cache
  after it, the vhosts registered on the application so far and the error thrown, if
  any; no loop catches an error of \<open>loadRoutes\<close>. \<open>dir\<close> is the path of the vhost
  directory whose entries the inner loop walks.
\<close>

fun loadVhostInner ::
  "cache \<Rightarrow> filesystem \<Rightarrow> server_manager \<Rightarrow> string \<Rightarrow> string \<Rightarrow> string \<Rightarrow> fsnode list
   \<Rightarrow> vhost_registration list \<Rightarrow> cache \<times> vhost_registration list \<times> js_error option" where
  "loadVhostInner c fs m basehostname vname dir [] app = (c, app, None)"
| "loadVhostInner c fs m basehostname vname dir (innerPath # inner) app =
     (if \<not> isDirectory innerPath then loadVhostInner c fs m basehostname vname dir inner app
      else if filepath innerPath = ''routes'' then
        (case loadRoutes c fs m [(join dir ''routes'', readdir innerPath)] of
           (c1, Inl e) \<Rightarrow> (c1, app, Some e)
         | (c1, Inr router) \<Rightarrow>
             loadVhostInner c1 fs m basehostname vname dir inner
               (app @ [RegVhost (vname @ ''.'' @ basehostname) router]))
      else loadVhostInner c fs m basehostname vname dir inner app)"

fun loadVhostFiles ::
  "cache \<Rightarrow> filesystem \<Rightarrow> server_manager \<Rightarrow> string \<Rightarrow> string \<Rightarrow> fsnode list
   \<Rightarrow> vhost_registration list \<Rightarrow> cache \<times> vhost_registration list \<times> js_error option" where
  "loadVhostFiles c fs m basehostname dir [] app = (c, app, None)"
| "loadVhostFiles c fs m basehostname dir (node # files) app =
     (if \<not> isDirectory node then loadVhostFiles c fs m basehostname dir files app
      else
        (case vhostMatch (filepath node) of
           None \<Rightarrow> loadVhostFiles c fs m basehostname dir files app
         | Some vname \<Rightarrow>
             (case readdir node of
                Inl e \<Rightarrow> (c, app, Some e)
              | Inr inner \<Rightarrow>
                  (case loadVhostInner c fs m basehostname vname (join dir (filepath node)) inner app of
                     (c1, app', Some e) \<Rightarrow> (c1, app', Some e)
                   | (c1, app', None) \<Rightarrow> loadVhostFiles c1 fs m basehostname dir files app'))))"

fun loadVhostDirectories ::
  "cache \<Rightarrow> filesystem \<Rightarrow> server_manager \<Rightarrow> string \<Rightarrow> string list
   \<Rightarrow> vhost_registration list \<Rightarrow> cache \<times> vhost_registration list \<times> js_error option" where
  "loadVhostDirectories c fs m basehostname [] app = (c, app, None)"
| "loadVhostDirectories c fs m basehostname (dir # dirs) app =
     (case readdirSync fs dir of
        Inl e \<Rightarrow> (c, app, Some e)
      | Inr files \<Rightarrow>
          (case loadVhostFiles c fs m basehostname dir files app of
             (c1, app', Some e) \<Rightarrow> (c1, app', Some e)
           | (c1, app', None) \<Rightarrow> loadVhostDirectories c1 fs m basehostname dirs app'))"

definition loadVhosts ::
  "cache \<Rightarrow> filesystem \<Rightarrow> server_manager \<Rightarrow> string
   \<Rightarrow> cache \<times> vhost_registration list \<times> js_error option" where
  "loadVhosts c fs m basehostname =
     (if vhostDirectories m = [] then (c, [], None)
      else loadVhostDirectories c fs m basehostname (vhostDirectories m) [])"

section \<open>Reading the cache\<close>

text \<open>
  \<open>precedes c a b\<close>: in the cache \<open>c\<close> both objects have a priority, and the one
  of \<open>a\<close> is at least the one of \<open>b\<close>. \<open>keeps c c'\<close>: every object of \<open>c\<close> is
  still cached in \<open>c'\<close>, still has a priority if it had one, and is still of type
  \<open>"use"\<close> if it was.
\<close>

definition precedes :: "cache \<Rightarrow> item \<Rightarrow> item \<Rightarrow> bool" where
  "precedes c a b =
     (case (priority (deref c a), priority (deref c b)) of
        (Some pa, Some pb) \<Rightarrow> pb \<le> pa
      | _ \<Rightarrow> False)"

definition keeps :: "cache \<Rightarrow> cache \<Rightarrow> bool" where
  "keeps c c' =
     (\<forall>p v. c p = Some v \<longrightarrow>
        (\<exists>v'. c' p = Some v'
           \<and> (priority v \<noteq> None \<longrightarrow> priority v' \<noteq> None)
           \<and> (type v = Some ''use'' \<longrightarrow> type v' = Some ''use'')))"

text \<open>
  \<open>settled c c'\<close>: every priority that an object has in \<open>c\<close> it still has in
  \<open>c'\<close>.
\<close>

definition settled :: "cache \<Rightarrow> cache \<Rightarrow> bool" where
  "settled c c' = (\<forall>e x. priority (deref c e) = Some x \<longrightarrow> priority (deref c' e) = Some x)"

section \<open>Properties\<close>

text \<open>
  The definitions that the evaluation of a concrete run unfolds.
\<close>

lemmas eval_defs = mergeLevel_def loadRoute_def loadUse_def require_def isJs_def truthy_def
  recognised_def array_sort_def compare_priority_def object_def join_def localUses_def
  registerEntry_def registerMethod_def nonpositive_def Let_def startingPriority_def
  specificAt_def decrement_def falsy_def readdirSync_def loadRoutes.simps

subsection \<open>Directory registration\<close>

lemma distinct_push_new: "distinct xs \<Longrightarrow> distinct (push_new xs d)"
  by (simp add: push_new_def array_includes_def)

lemma push_new_twice: "push_new (push_new xs d) d = push_new xs d"
  by (simp add: push_new_def array_includes_def)

lemma perform_refuses:
  "\<not> isAbsolute (argument c) \<Longrightarrow> perform c m = (Some (Error ''Provided path was not absolute.''), m)"
  by (cases c)
     (simp_all add: addRouteDirectory_def addUseDirectory_def addStaticDirectory_def addVhostDirectory_def)

lemma perform_accepts: "isAbsolute (argument c) \<Longrightarrow> fst (perform c m) = None"
  by (cases c)
     (simp_all add: addRouteDirectory_def addUseDirectory_def addStaticDirectory_def addVhostDirectory_def)

lemma perform_twice:
  "isAbsolute (argument c) \<Longrightarrow> perform c (snd (perform c m)) = perform c m"
  by (cases c)
     (simp_all add: addRouteDirectory_def addUseDirectory_def addStaticDirectory_def
        addVhostDirectory_def push_new_twice)

lemma perform_duplicate_free: "duplicate_free m \<Longrightarrow> duplicate_free (snd (perform c m))"
  by (cases c)
     (simp_all add: duplicate_free_def addRouteDirectory_def addUseDirectory_def
        addStaticDirectory_def addVhostDirectory_def distinct_push_new)

lemma perform_all_duplicate_free: "duplicate_free m \<Longrightarrow> duplicate_free (perform_all cs m)"
  by (induction cs arbitrary: m) (simp_all add: perform_duplicate_free)

lemma new_manager_duplicate_free: "duplicate_free (new_manager p)"
  by (simp add: new_manager_def duplicate_free_def)

text \<open>
  Claim C10. Each of \<open>addRouteDirectory\<close>, \<open>addUseDirectory\<close>, \<open>addStaticDirectory\<close>
  and \<open>addVhostDirectory\<close> throws on a path that is not absolute and leaves the
  manager as it was; on an absolute path it does not throw, and a second registration
  of the same directory changes nothing; and after any sequence of registrations on a
  manager whose lists hold no directory twice, such as a new one, no list holds a
  directory twice.
\<close>

theorem directory_lists_duplicate_free:
  "(\<not> isAbsolute (argument c) \<longrightarrow>
      perform c m = (Some (Error ''Provided path was not absolute.''), m))
   \<and> (isAbsolute (argument c) \<longrightarrow>
      fst (perform c m) = None \<and> perform c (snd (perform c m)) = perform c m)
   \<and> (duplicate_free m \<longrightarrow> duplicate_free (perform_all cs m))
   \<and> duplicate_free (perform_all cs (new_manager p))"
  by (simp add: perform_refuses perform_accepts perform_twice perform_all_duplicate_free
        new_manager_duplicate_free)

text \<open>
  A relative path is refused and the manager is unchanged; an absolute path registered
  twice is listed once; a sequence with a repetition and a refused call leaves the
  lists free of duplicates.
\<close>

theorem directory_lists_duplicate_free_witness:
  "perform (AddRoute ''routes'') (new_manager 443)
     = (Some (Error ''Provided path was not absolute.''), new_manager 443)
   \<and> routeDirectories (snd (perform (AddRoute ''/srv/routes'')
        (snd (perform (AddRoute ''/srv/routes'') (new_manager 443)))))
     = [''/srv/routes'']
   \<and> duplicate_free (perform_all
        [AddRoute ''/srv/routes'', AddUse ''/srv/uses'', AddRoute ''/srv/routes'', AddVhost ''vhosts'']
        (new_manager 443))"
proof -
  have n: "\<not> isAbsolute (argument (AddRoute ''routes''))"
    by (simp add: isAbsolute_def)
  have a: "isAbsolute (argument (AddRoute ''/srv/routes''))"
    by (simp add: isAbsolute_def)
  have 1: "perform (AddRoute ''routes'') (new_manager 443)
             = (Some (Error ''Provided path was not absolute.''), new_manager 443)"
    using directory_lists_duplicate_free [of "AddRoute ''routes''" "new_manager 443" "[]" 443] n
    by blast
  have "perform (AddRoute ''/srv/routes'') (snd (perform (AddRoute ''/srv/routes'') (new_manager 443)))
          = perform (AddRoute ''/srv/routes'') (new_manager 443)"
    using directory_lists_duplicate_free [of "AddRoute ''/srv/routes''" "new_manager 443" "[]" 443] a
    by blast
  then have 2: "routeDirectories (snd (perform (AddRoute ''/srv/routes'')
        (snd (perform (AddRoute ''/srv/routes'') (new_manager 443))))) = [''/srv/routes'']"
    by (simp add: addRouteDirectory_def isAbsolute_def push_new_def array_includes_def new_manager_def)
  have 3: "duplicate_free (perform_all
        [AddRoute ''/srv/routes'', AddUse ''/srv/uses'', AddRoute ''/srv/routes'', AddVhost ''vhosts'']
        (new_manager 443))"
    using directory_lists_duplicate_free [of "AddRoute ''routes''" "new_manager 443"
        "[AddRoute ''/srv/routes'', AddUse ''/srv/uses'', AddRoute ''/srv/routes'', AddVhost ''vhosts'']"
        443]
    by blast
  from 1 2 3 show ?thesis by blast
qed

subsection \<open>The persistence operation\<close>

lemma init_failure_leaves_ready:
  "dbPath \<noteq> [] \<Longrightarrow> connect dbPath = Inl e \<Longrightarrow>
   init dbPath connect m = (\<lparr> ready = True, db_path = dbPath \<rparr>, Some e)"
  by (simp add: init_def operation_def)

lemma init_ready:
  "dbPath \<noteq> [] \<Longrightarrow> connect dbPath = Inr db \<Longrightarrow>
   init dbPath connect m = (\<lparr> ready = True, db_path = dbPath \<rparr>, None)"
  by (simp add: init_def operation_def)

text \<open>
  Claim C9, as amended. On an initialised manager, when the driver opens a connection
  on the stored path, \<open>operation\<close> applies the function to it and closes the
  connection, in this order, whether the function returns or throws; what the function
  returns is returned and what it throws is thrown again. When the driver throws,
  \<open>operation\<close> throws the error of the driver: there is no connection, the function
  is not applied and nothing is closed. On a manager that has not been initialised
  \<open>operation\<close> throws at once: the driver is not called and the function is not
  applied.
\<close>

theorem operation_closes_connection:
  "(ready m \<and> connect (db_path m) = Inr db \<longrightarrow>
      operation m connect f = ([Opened (db_path m), Applied, Closed], f db))
   \<and> (ready m \<and> connect (db_path m) = Inl e \<longrightarrow> operation m connect f = ([], Inl e))
   \<and> (\<not> ready m \<longrightarrow>
      operation m connect f = ([], Inl (Error ''the database handler has not been initialised'')))"
  by (cases "f db") (simp_all add: operation_def)

text \<open>
  A function that returns, a function that throws, a driver that cannot open the file,
  and a manager that is not ready.
\<close>

theorem operation_closes_connection_witness:
  "operation \<lparr> ready = True, db_path = ''db.sqlite'' \<rparr> (\<lambda>p. Inr p) (\<lambda>db. Inr (length db))
     = ([Opened ''db.sqlite'', Applied, Closed], Inr 9)
   \<and> operation \<lparr> ready = True, db_path = ''db.sqlite'' \<rparr> (\<lambda>p. Inr p)
        (\<lambda>db. (Inl (Error ''constraint failed'') :: js_error + nat))
     = ([Opened ''db.sqlite'', Applied, Closed], Inl (Error ''constraint failed''))
   \<and> operation \<lparr> ready = True, db_path = ''/missing/db.sqlite'' \<rparr>
        (\<lambda>p. (Inl (TypeError ''Cannot open database because the directory does not exist'')
               :: js_error + string))
        (\<lambda>db. Inr (length db))
     = ([], Inl (TypeError ''Cannot open database because the directory does not exist''))
   \<and> operation \<lparr> ready = False, db_path = [] \<rparr> (\<lambda>p. Inr p) (\<lambda>db. Inr (length db))
     = ([], Inl (Error ''the database handler has not been initialised''))"
  using
    operation_closes_connection
      [of "\<lparr> ready = True, db_path = ''db.sqlite'' \<rparr>" "\<lambda>p. Inr p" "''db.sqlite''"
          "\<lambda>db. Inr (length db)"]
    operation_closes_connection
      [of "\<lparr> ready = True, db_path = ''db.sqlite'' \<rparr>" "\<lambda>p. Inr p" "''db.sqlite''"
          "\<lambda>db. (Inl (Error ''constraint failed'') :: js_error + nat)"]
    operation_closes_connection
      [of "\<lparr> ready = True, db_path = ''/missing/db.sqlite'' \<rparr>"
          "\<lambda>p. (Inl (TypeError ''Cannot open database because the directory does not exist'')
               :: js_error + string)"
          _ "\<lambda>db. Inr (length db)"
          "TypeError ''Cannot open database because the directory does not exist''"]
    operation_closes_connection
      [of "\<lparr> ready = False, db_path = [] \<rparr>" "\<lambda>p. Inr p" _ "\<lambda>db. Inr (length db)"]
  by simp

text \<open>
  Two calls in which no connection is opened and the function is not run: before
  \<open>init\<close>, where the error is the one of the guard, and on an initialised manager
  whose database the driver cannot open, where the error is the one of the driver.
\<close>

theorem operation_without_connection_counterexample:
  "operation \<lparr> ready = False, db_path = [] \<rparr> (\<lambda>p. Inr p) (\<lambda>db. (Inr 1 :: js_error + nat))
     = ([], Inl (Error ''the database handler has not been initialised''))
   \<and> operation \<lparr> ready = True, db_path = ''/missing/db.sqlite'' \<rparr>
        (\<lambda>p. (Inl (TypeError ''Cannot open database because the directory does not exist'')
               :: js_error + string))
        (\<lambda>db. (Inr 1 :: js_error + nat))
     = ([], Inl (TypeError ''Cannot open database because the directory does not exist''))"
  by (simp add: operation_def)

subsection \<open>The header rewrite\<close>

lemma replace_absent: "indexOf s pat = None \<Longrightarrow> replace s pat rep = s"
  by (simp add: replace_def)

lemma getSubstitution_plain:
  "CHR ''$'' \<notin> set rep \<Longrightarrow> getSubstitution matched before after rep = rep"
  by (induction matched before after rep rule: getSubstitution.induct) auto

lemma replace_first:
  "indexOf s pat = Some i \<Longrightarrow> CHR ''$'' \<notin> set rep \<Longrightarrow>
   replace s pat rep = take i s @ rep @ drop (i + length pat) s"
  by (simp add: replace_def getSubstitution_plain)

lemma decorator_keys: "map fst (userResHeaderDecorator localname hostname hs) = map fst hs"
  by (induction hs) (auto simp: userResHeaderDecorator_def)

lemma decorator_not_string:
  "(x, v) \<in> set hs \<Longrightarrow> (\<forall>s. v \<noteq> StringValue s) \<Longrightarrow>
   (x, v) \<in> set (userResHeaderDecorator localname hostname hs)"
  by (cases v) (force simp: userResHeaderDecorator_def)+

text \<open>
  Claim C1. The claim asks that every occurrence of the backend hostname in a string
  header value is replaced. The decorator calls \<open>replace\<close> with a string pattern,
  which replaces the first occurrence only: in a \<open>link\<close> header that names the
  backend twice the second occurrence reaches the client. The number is passed
  through.
\<close>

theorem decorator_replaces_first_occurrence_only:
  "userResHeaderDecorator ''10.0.0.5:8080'' ''shop.example.com''
     [(''content-length'', NumberValue 12),
      (''link'', StringValue ''<http://10.0.0.5:8080/a>, <http://10.0.0.5:8080/b>'')]
   = [(''content-length'', NumberValue 12),
      (''link'', StringValue ''<http://shop.example.com/a>, <http://10.0.0.5:8080/b>'')]"
  by (simp add: userResHeaderDecorator_def replace_def)

subsection \<open>The proxy middleware\<close>

text \<open>
  Claim C2. For a hostname without a mapping the middleware calls the continuation,
  and then, with no \<open>return\<close> after the call, reads \<open>localname.localhost\<close> on the
  undefined row: it throws a \<open>TypeError\<close>, where the claim says no error is raised.
\<close>

theorem proxy_miss_calls_next_then_throws:
  "proxyUse \<lparr> ready = True, db_path = ''db.sqlite'' \<rparr>
     (\<lambda>p. Inr [''shop.example.com'' \<mapsto> ''10.0.0.5:8080'']) ''blog.example.com''
   = ([CallNext], Inl (TypeError ''Cannot read properties of undefined (reading localhost)''))"
  by (simp add: proxyUse_def operation_def)

lemma proxy_miss_throws:
  "ready m \<Longrightarrow> connect (db_path m) = Inr db \<Longrightarrow> db hostname = None \<Longrightarrow>
   proxyUse m connect hostname
     = ([CallNext], Inl (TypeError ''Cannot read properties of undefined (reading localhost)''))"
  by (simp add: proxyUse_def operation_def)

text \<open>
  For a hostname with a mapping the module calls \<open>proxy\<close>, which it never binds: the
  continuation is not called and the request is not forwarded.
\<close>

lemma proxy_hit_throws:
  "ready m \<Longrightarrow> connect (db_path m) = Inr db \<Longrightarrow> db hostname = Some localhost \<Longrightarrow>
   proxyUse m connect hostname = ([], Inl (ReferenceError ''proxy is not defined''))"
  by (simp add: proxyUse_def operation_def)

lemma proxy_operation_throws:
  "snd (operation m connect (\<lambda>db. Inr (db hostname))) = Inl e \<Longrightarrow>
   proxyUse m connect hostname = ([], Inl e)"
  by (simp add: proxyUse_def)

subsection \<open>What the loaders keep in the cache\<close>

text \<open>
  No loader removes an object from the cache, removes a priority or changes the type
  \<open>"use"\<close> of an object; and the scan and the loop over the handlers leave every
  entry they return with a priority.
\<close>

lemma keeps_refl: "keeps c c"
  by (simp add: keeps_def)

lemma keeps_trans: "keeps c c1 \<Longrightarrow> keeps c1 c2 \<Longrightarrow> keeps c c2"
  unfolding keeps_def by (meson)

lemma keeps_cached:
  assumes "keeps c c'" and "c p = Some v"
  obtains v' where "c' p = Some v'"
    and "priority v \<noteq> None \<Longrightarrow> priority v' \<noteq> None"
    and "type v = Some ''use'' \<Longrightarrow> type v' = Some ''use''"
  using assms unfolding keeps_def by blast

lemma keeps_priority:
  assumes "keeps c c'" and "priority (deref c e) \<noteq> None"
  shows "priority (deref c' e) \<noteq> None"
proof (cases e)
  case (Cached p)
  show ?thesis
  proof (cases "c p")
    case None
    with Cached assms(2) show ?thesis by (simp add: object_def)
  next
    case (Some v)
    from keeps_cached [OF assms(1) Some] obtain v' where "c' p = Some v'"
      and "priority v \<noteq> None \<Longrightarrow> priority v' \<noteq> None" by blast
    with Cached Some assms(2) show ?thesis by simp
  qed
next
  case (Own v)
  with assms(2) show ?thesis by simp
qed

lemma keeps_use:
  assumes "keeps c c'" and "type (deref c e) = Some ''use''"
  shows "type (deref c' e) = Some ''use''"
proof (cases e)
  case (Cached p)
  show ?thesis
  proof (cases "c p")
    case None
    with Cached assms(2) show ?thesis by (simp add: object_def)
  next
    case (Some v)
    from keeps_cached [OF assms(1) Some] obtain v' where "c' p = Some v'"
      and "type v = Some ''use'' \<Longrightarrow> type v' = Some ''use''" by blast
    with Cached Some assms(2) show ?thesis by simp
  qed
next
  case (Own v)
  with assms(2) show ?thesis by simp
qed

lemma assign_keeps:
  assumes "\<And>v. priority v \<noteq> None \<Longrightarrow> priority (f v) \<noteq> None"
    and "\<And>v. type v = Some ''use'' \<Longrightarrow> type (f v) = Some ''use''"
  shows "keeps c (fst (assign c u f))"
  using assms by (cases u) (auto simp: keeps_def)

lemma assign_deref: "assign c u f = (c', u') \<Longrightarrow> deref c' u' = f (deref c u)"
  by (cases u) auto

lemma require_keeps: "require c p node = (c', r) \<Longrightarrow> keeps c c'"
  by (auto simp: require_def keeps_def split: option.splits sum.splits)

lemma loadUse_keeps: "loadUse c dir node toLoad = (c', logs, r) \<Longrightarrow> keeps c c'"
proof -
  assume a: "loadUse c dir node toLoad = (c', logs, r)"
  obtain c1 r1 where q: "require c (join dir (filepath node)) node = (c1, r1)"
    by (cases "require c (join dir (filepath node)) node")
  have k1: "keeps c c1" using q by (rule require_keeps)
  show ?thesis
  proof (cases r1)
    case (Inl e)
    with a q k1 show ?thesis by (simp add: loadUse_def)
  next
    case (Inr u)
    have k2: "keeps c1 (fst (assign c1 u (\<lambda>v. v\<lparr> priority := Some 0 \<rparr>)))"
      by (rule assign_keeps) simp_all
    from a q Inr have "c' = c1 \<or> c' = fst (assign c1 u (\<lambda>v. v\<lparr> priority := Some 0 \<rparr>))"
      by (auto simp: loadUse_def split: if_splits prod.splits)
    with k1 k2 show ?thesis by (auto intro: keeps_trans)
  qed
qed

lemma scanUses_preserves:
  assumes rfl: "\<And>c. R c c"
    and trans: "\<And>a b c. R a b \<Longrightarrow> R b c \<Longrightarrow> R a c"
    and step: "\<And>c dir node toLoad c' logs r. loadUse c dir node toLoad = (c', logs, r) \<Longrightarrow> R c c'"
  shows "scanUses c dir files toLoad = (c', logs, r) \<Longrightarrow> R c c'"
proof (induction c dir files toLoad arbitrary: c' logs r rule: scanUses.induct)
  case (1 c dir toLoad)
  then show ?case by (simp add: rfl)
next
  case (2 c dir n l files toLoad)
  show ?case
  proof (cases "isJs n")
    case False
    with 2 show ?thesis by simp
  next
    case True
    obtain c1 l1 r1 where lu: "loadUse c dir (File n l) toLoad = (c1, l1, r1)"
      by (cases "loadUse c dir (File n l) toLoad") auto
    have k1: "R c c1" using lu by (rule step)
    show ?thesis
    proof (cases r1)
      case (Inl e)
      with 2 True lu k1 show ?thesis by simp
    next
      case (Inr t1)
      obtain c2 l2 r2 where s: "scanUses c1 dir files t1 = (c2, l2, r2)"
        by (cases "scanUses c1 dir files t1") auto
      from "2.IH"(2) [OF _ _ _ _ s] True lu Inr have "R c1 c2" by simp
      moreover from "2.prems" True lu Inr s have "c' = c2" by simp
      ultimately show ?thesis using k1 by (blast intro: trans)
    qed
  qed
next
  case (3 c dir n l cs files toLoad)
  obtain c0 l0 r0 where n: "scanUses c (join dir n) cs [] = (c0, l0, r0)"
    by (cases "scanUses c (join dir n) cs []") auto
  have k0: "R c c0" using "3.IH"(1) [OF n] .
  show ?case
  proof (cases r0)
    case (Inl e)
    with 3 n k0 show ?thesis by simp
  next
    case (Inr nested)
    show ?thesis
    proof (cases "isJs n")
      case False
      obtain c2 l2 r2 where s: "scanUses c0 dir files toLoad = (c2, l2, r2)"
        by (cases "scanUses c0 dir files toLoad") auto
      from "3.IH"(2) [OF _ _ _ _ s] n Inr False have "R c0 c2" by simp
      moreover from "3.prems" n Inr False s have "c' = c2" by simp
      ultimately show ?thesis using k0 by (blast intro: trans)
    next
      case True
      obtain c1 l1 r1 where lu: "loadUse c0 dir (Dir n l cs) toLoad = (c1, l1, r1)"
        by (cases "loadUse c0 dir (Dir n l cs) toLoad") auto
      have k1: "R c0 c1" using lu by (rule step)
      show ?thesis
      proof (cases r1)
        case (Inl e)
        with "3.prems" n Inr True lu have "c' = c1" by simp
        with k0 k1 show ?thesis by (blast intro: trans)
      next
        case (Inr t1)
        obtain c2 l2 r2 where s: "scanUses c1 dir files t1 = (c2, l2, r2)"
          by (cases "scanUses c1 dir files t1") auto
        from "3.IH"(3) [OF _ _ _ _ _ _ _ s] n \<open>r0 = Inr nested\<close> True lu Inr
        have "R c1 c2" by simp
        moreover from "3.prems" n \<open>r0 = Inr nested\<close> True lu Inr s have "c' = c2" by simp
        ultimately show ?thesis using k0 k1 by (blast intro: trans)
      qed
    qed
  qed
qed

lemma scanUseDirectories_preserves:
  assumes rfl: "\<And>c. R c c"
    and trans: "\<And>a b c. R a b \<Longrightarrow> R b c \<Longrightarrow> R a c"
    and step: "\<And>c dir node toLoad c' logs r. loadUse c dir node toLoad = (c', logs, r) \<Longrightarrow> R c c'"
  shows "scanUseDirectories c fs dirs toLoad = (c', logs, r) \<Longrightarrow> R c c'"
proof (induction dirs arbitrary: c c' toLoad logs r)
  case Nil
  then show ?case by (simp add: rfl)
next
  case (Cons dir dirs)
  show ?case
  proof (cases "readdirSync fs dir")
    case (Inl e)
    with Cons.prems show ?thesis by (simp add: rfl)
  next
    case (Inr files)
    obtain c1 l1 r1 where s: "scanUses c dir files toLoad = (c1, l1, r1)"
      by (cases "scanUses c dir files toLoad") auto
    have k1: "R c c1" by (rule scanUses_preserves [where R = R, OF rfl trans step s])
    show ?thesis
    proof (cases r1)
      case (Inl e)
      with Cons.prems Inr s k1 show ?thesis by simp
    next
      case r1: (Inr t1)
      obtain c2 l2 r2 where d: "scanUseDirectories c1 fs dirs t1 = (c2, l2, r2)"
        by (cases "scanUseDirectories c1 fs dirs t1") auto
      from Cons.IH [OF d] have "R c1 c2" .
      moreover from Cons.prems Inr s r1 d have "c' = c2" by simp
      ultimately show ?thesis using k1 by (blast intro: trans)
    qed
  qed
qed

lemma getUses_preserves:
  assumes rfl: "\<And>c. R c c"
    and trans: "\<And>a b c. R a b \<Longrightarrow> R b c \<Longrightarrow> R a c"
    and step: "\<And>c dir node toLoad c' logs r. loadUse c dir node toLoad = (c', logs, r) \<Longrightarrow> R c c'"
  shows "getUses c fs m u = (c', logs, r) \<Longrightarrow> R c c'"
proof (cases u)
  case (UseFunction f)
  assume "getUses c fs m u = (c', logs, r)"
  with UseFunction show ?thesis by (simp add: rfl)
next
  case (UseName dir)
  assume a: "getUses c fs m u = (c', logs, r)"
  show ?thesis
  proof (cases "useDirectories m = [] \<and> dir = []")
    case True
    with a UseName show ?thesis by (simp add: rfl)
  next
    case False
    obtain c1 l1 r1 where
      s: "scanUseDirectories c fs (if dir \<noteq> [] then [dir] else routeDirectories m) [] = (c1, l1, r1)"
      by (cases "scanUseDirectories c fs (if dir \<noteq> [] then [dir] else routeDirectories m) []") auto
    from a UseName False s have "c' = c1" by (cases r1) (simp_all add: Let_def)
    with scanUseDirectories_preserves [where R = R, OF rfl trans step s] show ?thesis by simp
  qed
qed

lemma getUses_keeps: "getUses c fs m u = (c', logs, r) \<Longrightarrow> keeps c c'"
  by (rule getUses_preserves [where R = keeps]) (blast intro: keeps_refl keeps_trans loadUse_keeps)+

lemma assignPriorities_keeps:
  "assignPriorities c specific us st = (c', es, st') \<Longrightarrow> keeps c c'"
proof (induction us arbitrary: c c' st es st')
  case Nil
  then show ?case by (cases st) (simp add: keeps_refl)
next
  case (Cons u us)
  obtain fb i where st: "st = (fb, i)" by (cases st)
  define q where "q = (case specificAt specific i of Some q \<Rightarrow> q | None \<Rightarrow> fb)"
  define st1 where
    "st1 = (case specificAt specific i of Some q \<Rightarrow> (fb, i + 1) | None \<Rightarrow> (decrement fb, i + 1))"
  obtain c1 u' where a: "assign c u (\<lambda>v. v\<lparr> type := Some ''use'', priority := Some q \<rparr>) = (c1, u')"
    by (cases "assign c u (\<lambda>v. v\<lparr> type := Some ''use'', priority := Some q \<rparr>)")
  have "keeps c (fst (assign c u (\<lambda>v. v\<lparr> type := Some ''use'', priority := Some q \<rparr>)))"
    by (rule assign_keeps) simp_all
  with a have k1: "keeps c c1" by simp
  obtain c2 us2 st2 where r: "assignPriorities c1 specific us st1 = (c2, us2, st2)"
    by (cases "assignPriorities c1 specific us st1")
  from Cons.IH [OF r] have k2: "keeps c1 c2" .
  from Cons.prems st a r have "c' = c2"
    by (auto simp: q_def st1_def split: option.splits)
  with k1 k2 show ?case by (auto intro: keeps_trans)
qed

lemma assignPriorities_defined:
  "assignPriorities c specific us st = (c', es, st') \<Longrightarrow>
   \<forall>e \<in> set es. priority (deref c' e) \<noteq> None \<and> type (deref c' e) = Some ''use''"
proof (induction us arbitrary: c c' st es st')
  case Nil
  then show ?case by (cases st) simp
next
  case (Cons u us)
  obtain fb i where st: "st = (fb, i)" by (cases st)
  define q where "q = (case specificAt specific i of Some q \<Rightarrow> q | None \<Rightarrow> fb)"
  define st1 where
    "st1 = (case specificAt specific i of Some q \<Rightarrow> (fb, i + 1) | None \<Rightarrow> (decrement fb, i + 1))"
  obtain c1 u' where a: "assign c u (\<lambda>v. v\<lparr> type := Some ''use'', priority := Some q \<rparr>) = (c1, u')"
    by (cases "assign c u (\<lambda>v. v\<lparr> type := Some ''use'', priority := Some q \<rparr>)")
  obtain c2 us2 st2 where r: "assignPriorities c1 specific us st1 = (c2, us2, st2)"
    by (cases "assignPriorities c1 specific us st1")
  from assignPriorities_keeps [OF r] have k2: "keeps c1 c2" .
  from assign_deref [OF a] have "priority (deref c1 u') \<noteq> None" "type (deref c1 u') = Some ''use''"
    by simp_all
  with k2 have u: "priority (deref c2 u') \<noteq> None" "type (deref c2 u') = Some ''use''"
    by (auto dest: keeps_priority keeps_use)
  from Cons.prems st a r have "c' = c2" "es = u' # us2"
    by (auto simp: q_def st1_def split: option.splits)
  with u Cons.IH [OF r] show ?case by simp
qed

lemma resolveUses_keeps:
  "resolveUses c fs m specific us st = (c', r) \<Longrightarrow> keeps c c'"
proof (induction us arbitrary: c c' st r)
  case Nil
  then show ?case by (simp add: keeps_refl)
next
  case (Cons u us)
  obtain c1 l1 r1 where g: "getUses c fs m u = (c1, l1, r1)"
    by (cases "getUses c fs m u") auto
  have k1: "keeps c c1" using g by (rule getUses_keeps)
  show ?case
  proof (cases r1)
    case (Inl e)
    with Cons.prems g k1 show ?thesis by simp
  next
    case (Inr res)
    show ?thesis
    proof (cases res)
      case This
      with Cons.prems g Inr k1 show ?thesis by simp
    next
      case (Uses uses)
      obtain c2 es st2 where a: "assignPriorities c1 specific uses st = (c2, es, st2)"
        by (cases "assignPriorities c1 specific uses st")
      obtain c3 r3 where r: "resolveUses c2 fs m specific us st2 = (c3, r3)"
        by (cases "resolveUses c2 fs m specific us st2")
      from Cons.prems g Inr Uses a r have "c' = c3" by (cases r3) simp_all
      with k1 assignPriorities_keeps [OF a] Cons.IH [OF r] show ?thesis
        by (auto intro: keeps_trans)
    qed
  qed
qed

lemma resolveUses_defined:
  "resolveUses c fs m specific us st = (c', Inr es) \<Longrightarrow>
   \<forall>e \<in> set es. priority (deref c' e) \<noteq> None \<and> type (deref c' e) = Some ''use''"
proof (induction us arbitrary: c c' st es)
  case Nil
  then show ?case by simp
next
  case (Cons u us)
  from Cons.prems obtain c1 l1 uses c2 es1 st2 es2 where
    g: "getUses c fs m u = (c1, l1, Inr (Uses uses))" and
    a: "assignPriorities c1 specific uses st = (c2, es1, st2)" and
    r: "resolveUses c2 fs m specific us st2 = (c', Inr es2)" and
    es: "es = es1 @ es2"
    by (auto split: prod.splits sum.splits uses_result.splits)
  from assignPriorities_defined [OF a] resolveUses_keeps [OF r]
  have "\<forall>e \<in> set es1. priority (deref c' e) \<noteq> None \<and> type (deref c' e) = Some ''use''"
    by (blast dest: keeps_priority keeps_use)
  with Cons.IH [OF r] es show ?case by auto
qed

lemma localUses_keeps: "localUses c fs m route = (c', r) \<Longrightarrow> keeps c c'"
  by (auto simp: localUses_def keeps_refl split: option.splits if_splits dest: resolveUses_keeps)

lemma localUses_defined:
  "localUses c fs m route = (c', Inr es) \<Longrightarrow>
   \<forall>e \<in> set es. priority (deref c' e) \<noteq> None \<and> type (deref c' e) = Some ''use''"
  by (auto simp: localUses_def split: option.splits if_splits dest: resolveUses_defined)

lemma allUsesOf_keeps: "allUsesOf c fs m routes = (c', r) \<Longrightarrow> keeps c c'"
proof (induction routes arbitrary: c c' r)
  case Nil
  then show ?case by (simp add: keeps_refl)
next
  case (Cons route routes)
  obtain c1 r1 where l: "localUses c fs m route = (c1, r1)"
    by (cases "localUses c fs m route")
  have k1: "keeps c c1" using l by (rule localUses_keeps)
  show ?case
  proof (cases r1)
    case (Inl e)
    with Cons.prems l k1 show ?thesis by simp
  next
    case (Inr es)
    obtain c2 r2 where a: "allUsesOf c1 fs m routes = (c2, r2)"
      by (cases "allUsesOf c1 fs m routes")
    from Cons.prems l Inr a have "c' = c2" by (cases r2) simp_all
    with k1 Cons.IH [OF a] show ?thesis by (auto intro: keeps_trans)
  qed
qed

lemma allUsesOf_defined:
  "allUsesOf c fs m routes = (c', Inr es) \<Longrightarrow>
   \<forall>e \<in> set es. priority (deref c' e) \<noteq> None \<and> type (deref c' e) = Some ''use''"
proof (induction routes arbitrary: c c' es)
  case Nil
  then show ?case by simp
next
  case (Cons route routes)
  from Cons.prems obtain c1 es1 es2 where
    l: "localUses c fs m route = (c1, Inr es1)" and
    a: "allUsesOf c1 fs m routes = (c', Inr es2)" and
    es: "es = es1 @ es2"
    by (auto split: prod.splits sum.splits)
  from localUses_defined [OF l] allUsesOf_keeps [OF a]
  have "\<forall>e \<in> set es1. priority (deref c' e) \<noteq> None \<and> type (deref c' e) = Some ''use''"
    by (blast dest: keeps_priority keeps_use)
  with Cons.IH [OF a] es show ?case by auto
qed

lemma loadRoute_keeps: "loadRoute c dir node toLoad = (c', logs, r) \<Longrightarrow> keeps c c'"
proof -
  assume a: "loadRoute c dir node toLoad = (c', logs, r)"
  obtain c1 r1 where q: "require c (join dir (filepath node)) node = (c1, r1)"
    by (cases "require c (join dir (filepath node)) node")
  have k1: "keeps c c1" using q by (rule require_keeps)
  show ?thesis
  proof (cases r1)
    case (Inl e)
    with a q k1 show ?thesis by (simp add: loadRoute_def)
  next
    case (Inr route)
    obtain c2 route' where
      p: "(if priority (deref c1 route) = None
           then assign c1 route (\<lambda>v. v\<lparr> priority := Some 0 \<rparr>) else (c1, route)) = (c2, route')"
      by (cases "(if priority (deref c1 route) = None
           then assign c1 route (\<lambda>v. v\<lparr> priority := Some 0 \<rparr>) else (c1, route))")
    have "keeps c1 (fst (assign c1 route (\<lambda>v. v\<lparr> priority := Some 0 \<rparr>)))"
      by (rule assign_keeps) simp_all
    with p have k2: "keeps c1 c2" by (auto simp: keeps_refl split: if_splits)
    have k3: "keeps c2 (fst (assign c2 route' (\<lambda>v. v\<lparr> validMethods := Some vm, filename := Some fn \<rparr>)))"
      for vm fn by (rule assign_keeps) simp_all
    have "c' = c1 \<or> c' = c2
       \<or> (\<exists>vm fn. c' = fst (assign c2 route' (\<lambda>v. v\<lparr> validMethods := Some vm, filename := Some fn \<rparr>)))"
    proof (cases "truthy (path (deref c1 route))")
      case False
      with a q Inr show ?thesis by (simp add: loadRoute_def)
    next
      case True
      show ?thesis
      proof (cases "methods (deref c2 route')")
        case None
        with a q Inr p True show ?thesis by (simp add: loadRoute_def Let_def)
      next
        case (Some ms)
        show ?thesis
        proof (cases "filter (\<lambda>x. x \<in> set recognised) (map fst ms) = []")
          case e: True
          with a q Inr p True Some show ?thesis by (simp add: loadRoute_def Let_def)
        next
          case e: False
          with a q Inr p True Some have
            "c' = fst (assign c2 route' (\<lambda>v. v\<lparr> validMethods := Some (filter (\<lambda>x. x \<in> set recognised) (map fst ms)),
                         filename := Some (filepath node) \<rparr>))"
            by (simp add: loadRoute_def Let_def split: prod.splits)
          then show ?thesis by blast
        qed
      qed
    qed
    with k1 k2 k3 show ?thesis by (auto intro: keeps_trans)
  qed
qed

lemma loadRoute_defined:
  assumes "loadRoute c dir node toLoad = (c', logs, Inr toLoad')"
    and "\<forall>e \<in> set toLoad. priority (deref c e) \<noteq> None"
  shows "\<forall>e \<in> set toLoad'. priority (deref c' e) \<noteq> None"
proof -
  from loadRoute_keeps [OF assms(1)] assms(2)
  have old: "\<forall>e \<in> set toLoad. priority (deref c' e) \<noteq> None"
    by (blast dest: keeps_priority)
  obtain c1 r1 where q: "require c (join dir (filepath node)) node = (c1, r1)"
    by (cases "require c (join dir (filepath node)) node")
  show ?thesis
  proof (cases r1)
    case (Inl e)
    with assms(1) q show ?thesis by (simp add: loadRoute_def)
  next
    case (Inr route)
    obtain c2 route' where
      p: "(if priority (deref c1 route) = None
           then assign c1 route (\<lambda>v. v\<lparr> priority := Some 0 \<rparr>) else (c1, route)) = (c2, route')"
      by (cases "(if priority (deref c1 route) = None
           then assign c1 route (\<lambda>v. v\<lparr> priority := Some 0 \<rparr>) else (c1, route))")
    have d2: "priority (deref c2 route') \<noteq> None"
    proof (cases "priority (deref c1 route) = None")
      case True
      with p have "assign c1 route (\<lambda>v. v\<lparr> priority := Some 0 \<rparr>) = (c2, route')" by simp
      from assign_deref [OF this] show ?thesis by simp
    next
      case False
      with p show ?thesis by auto
    qed
    show ?thesis
    proof (cases "toLoad' = toLoad")
      case True
      with old show ?thesis by simp
    next
      case False
      with assms(1) q Inr p obtain vm fn c3 route'' where
        s: "assign c2 route' (\<lambda>v. v\<lparr> validMethods := Some vm, filename := Some fn \<rparr>) = (c3, route'')"
        and c': "c' = c3" and t: "toLoad' = toLoad @ [route'']"
        by (auto simp: loadRoute_def Let_def split: if_splits option.splits prod.splits)
      from assign_deref [OF s] d2 have "priority (deref c3 route'') \<noteq> None" by simp
      with old c' t show ?thesis by simp
    qed
  qed
qed

lemma scanRoutes_keeps: "scanRoutes c dir files st = (c', logs, r) \<Longrightarrow> keeps c c'"
proof (induction files arbitrary: c c' st logs r)
  case Nil
  then show ?case by (cases st) (simp add: keeps_refl)
next
  case (Cons node files)
  obtain toLoad q where st: "st = (toLoad, q)" by (cases st)
  define queue where "queue = (if isDirectory node then q @ [(dir, node)] else q)"
  show ?case
  proof (cases "isJs (filepath node)")
    case False
    with Cons.prems st have "scanRoutes c dir files (toLoad, queue) = (c', logs, r)"
      by (simp add: queue_def Let_def)
    from Cons.IH [OF this] show ?thesis .
  next
    case True
    obtain c1 l1 r1 where l: "loadRoute c dir node toLoad = (c1, l1, r1)"
      by (cases "loadRoute c dir node toLoad") auto
    have k1: "keeps c c1" using l by (rule loadRoute_keeps)
    show ?thesis
    proof (cases r1)
      case (Inl e)
      with Cons.prems st True l k1 show ?thesis by (simp add: Let_def)
    next
      case (Inr t1)
      obtain c2 l2 r2 where s: "scanRoutes c1 dir files (t1, queue) = (c2, l2, r2)"
        by (cases "scanRoutes c1 dir files (t1, queue)") auto
      from Cons.prems st True l Inr s have "c' = c2" by (simp add: queue_def Let_def)
      with k1 Cons.IH [OF s] show ?thesis by (auto intro: keeps_trans)
    qed
  qed
qed

lemma scanRoutes_defined:
  assumes "scanRoutes c dir files (toLoad, q) = (c', logs, Inr (toLoad', q'))"
    and "\<forall>e \<in> set toLoad. priority (deref c e) \<noteq> None"
  shows "\<forall>e \<in> set toLoad'. priority (deref c' e) \<noteq> None"
  using assms
proof (induction files arbitrary: c toLoad q logs)
  case Nil
  then show ?case by simp
next
  case (Cons node files)
  define queue where "queue = (if isDirectory node then q @ [(dir, node)] else q)"
  show ?case
  proof (cases "isJs (filepath node)")
    case False
    with Cons.prems(1) have "scanRoutes c dir files (toLoad, queue) = (c', logs, Inr (toLoad', q'))"
      by (simp add: queue_def Let_def)
    from Cons.IH [OF this Cons.prems(2)] show ?thesis .
  next
    case True
    with Cons.prems(1) obtain c1 l1 t1 l2 where
      l: "loadRoute c dir node toLoad = (c1, l1, Inr t1)" and
      s: "scanRoutes c1 dir files (t1, queue) = (c', l2, Inr (toLoad', q'))"
      by (auto simp: queue_def Let_def split: prod.splits sum.splits)
    from Cons.IH [OF s loadRoute_defined [OF l Cons.prems(2)]] show ?thesis .
  qed
qed

lemma scanRouteDirectories_keeps:
  "scanRouteDirectories c dirs st = (c', logs, r) \<Longrightarrow> keeps c c'"
proof (induction dirs arbitrary: c c' st logs r)
  case Nil
  then show ?case by (simp add: keeps_refl)
next
  case (Cons d dirs)
  obtain dir l where d: "d = (dir, l)" by (cases d)
  show ?case
  proof (cases l)
    case (Inl e)
    with Cons.prems d show ?thesis by (simp add: keeps_refl)
  next
    case (Inr files)
    obtain c1 l1 r1 where s: "scanRoutes c dir files st = (c1, l1, r1)"
      by (cases "scanRoutes c dir files st") auto
    have k1: "keeps c c1" using s by (rule scanRoutes_keeps)
    show ?thesis
    proof (cases r1)
      case (Inl e)
      with Cons.prems d Inr s k1 show ?thesis by simp
    next
      case r1: (Inr st1)
      obtain c2 l2 r2 where t: "scanRouteDirectories c1 dirs st1 = (c2, l2, r2)"
        by (cases "scanRouteDirectories c1 dirs st1") auto
      from Cons.prems d Inr s r1 t have "c' = c2" by simp
      with k1 Cons.IH [OF t] show ?thesis by (auto intro: keeps_trans)
    qed
  qed
qed

lemma scanRouteDirectories_defined:
  assumes "scanRouteDirectories c dirs (toLoad, q) = (c', logs, Inr (toLoad', q'))"
    and "\<forall>e \<in> set toLoad. priority (deref c e) \<noteq> None"
  shows "\<forall>e \<in> set toLoad'. priority (deref c' e) \<noteq> None"
  using assms
proof (induction dirs arbitrary: c toLoad q logs)
  case Nil
  then show ?case by simp
next
  case (Cons d dirs)
  obtain dir l where d: "d = (dir, l)" by (cases d)
  show ?case
  proof (cases l)
    case (Inl e)
    with Cons.prems(1) d show ?thesis by simp
  next
    case (Inr files)
    with Cons.prems(1) d obtain c1 l1 t1 q1 l2 where
      s: "scanRoutes c dir files (toLoad, q) = (c1, l1, Inr (t1, q1))" and
      t: "scanRouteDirectories c1 dirs (t1, q1) = (c', l2, Inr (toLoad', q'))"
      by (auto split: prod.splits sum.splits)
    from Cons.IH [OF t scanRoutes_defined [OF s Cons.prems(2)]] show ?thesis .
  qed
qed

subsection \<open>The sort of the merge\<close>

lemma set_insert_by: "set (insert_by cmp x ys) = insert x (set ys)"
  by (induction ys) auto

lemma mset_insert_by: "mset (insert_by cmp x ys) = add_mset x (mset ys)"
  by (induction ys) auto

lemma array_sort_Cons: "array_sort cmp (x # xs) = insert_by cmp x (array_sort cmp xs)"
  by (simp add: array_sort_def)

lemma mset_array_sort: "mset (array_sort cmp xs) = mset xs"
  by (induction xs) (simp_all add: array_sort_def mset_insert_by)

lemma set_array_sort: "set (array_sort cmp xs) = set xs"
  using mset_array_sort [of cmp xs] by (metis set_mset_mset)

lemma sorted_insert_by:
  assumes "priority (deref c x) \<noteq> None"
    and "\<forall>e \<in> set ys. priority (deref c e) \<noteq> None"
    and "sorted_wrt (precedes c) ys"
  shows "sorted_wrt (precedes c) (insert_by (compare_priority c) x ys)"
  using assms
  by (induction ys)
     (auto simp: set_insert_by compare_priority_def precedes_def split: option.splits)

lemma sorted_array_sort:
  "\<forall>e \<in> set xs. priority (deref c e) \<noteq> None \<Longrightarrow>
   sorted_wrt (precedes c) (array_sort (compare_priority c) xs)"
proof (induction xs)
  case Nil
  show ?case by (simp add: array_sort_def)
next
  case (Cons x xs)
  then have "sorted_wrt (precedes c) (array_sort (compare_priority c) xs)" by simp
  moreover from Cons.prems have "priority (deref c x) \<noteq> None" by simp
  moreover from Cons.prems
  have "\<forall>e \<in> set (array_sort (compare_priority c) xs). priority (deref c e) \<noteq> None"
    by (simp add: set_array_sort)
  ultimately show ?case by (simp add: array_sort_Cons sorted_insert_by)
qed

lemma filter_insert_by:
  "filter (\<lambda>e. priority (deref c e) = Some p) (insert_by (compare_priority c) x ys) =
   filter (\<lambda>e. priority (deref c e) = Some p) (x # ys)"
  by (induction ys) (auto simp: compare_priority_def)

lemma filter_array_sort:
  "filter (\<lambda>e. priority (deref c e) = Some p) (array_sort (compare_priority c) xs) =
   filter (\<lambda>e. priority (deref c e) = Some p) xs"
proof (induction xs)
  case Nil
  show ?case by (simp add: array_sort_def)
next
  case (Cons x xs)
  then show ?case by (simp add: array_sort_Cons filter_insert_by)
qed

lemma mergeLevel_defined:
  assumes scan: "scanRouteDirectories c dirs ([], []) = (c1, logs, Inr (toLoad, q))"
    and uses: "allUsesOf c1 fs m toLoad = (c2, Inr allUses)"
  shows "\<forall>e \<in> set (toLoad @ allUses). priority (deref c2 e) \<noteq> None"
proof -
  from scanRouteDirectories_defined [OF scan]
  have "\<forall>e \<in> set toLoad. priority (deref c1 e) \<noteq> None" by simp
  with allUsesOf_keeps [OF uses] have "\<forall>e \<in> set toLoad. priority (deref c2 e) \<noteq> None"
    by (blast dest: keeps_priority)
  with allUsesOf_defined [OF uses] show ?thesis by auto
qed

text \<open>
  Claim C3. When the scan of a directory level gives the handlers \<open>toLoad\<close> and the
  loop over the handlers gives their middleware \<open>allUses\<close>, the merge of the level
  is the stable sort of \<open>toLoad\<close> followed by \<open>allUses\<close>, by the priorities the
  objects have after both loops. Then every entry has a priority and every element of
  \<open>allUses\<close> has the type \<open>"use"\<close>; the merged sequence is in descending order of
  priority; it holds the entries of \<open>toLoad\<close> and \<open>allUses\<close>, each as often as
  they do; and for every priority the entries of that priority stand in the order they
  have in \<open>toLoad\<close> followed by \<open>allUses\<close>: on a tie a handler precedes the
  middleware, that of its own included, and the middleware keeps its order.
\<close>

theorem priority_merge_sorted_stable:
  assumes scan: "scanRouteDirectories c dirs ([], []) = (c1, logs, Inr (toLoad, q))"
    and uses: "allUsesOf c1 fs m toLoad = (c2, Inr allUses)"
  shows "mergeLevel c fs m dirs
           = (c2, Inr (array_sort (compare_priority c2) (toLoad @ allUses), q))
     \<and> (\<forall>e \<in> set (toLoad @ allUses). priority (deref c2 e) \<noteq> None)
     \<and> (\<forall>e \<in> set allUses. type (deref c2 e) = Some ''use'')
     \<and> sorted_wrt (precedes c2) (array_sort (compare_priority c2) (toLoad @ allUses))
     \<and> mset (array_sort (compare_priority c2) (toLoad @ allUses)) = mset toLoad + mset allUses
     \<and> (\<forall>p. filter (\<lambda>e. priority (deref c2 e) = Some p)
                (array_sort (compare_priority c2) (toLoad @ allUses))
              = filter (\<lambda>e. priority (deref c2 e) = Some p) toLoad
                @ filter (\<lambda>e. priority (deref c2 e) = Some p) allUses)"
proof (intro conjI allI)
  show "mergeLevel c fs m dirs
          = (c2, Inr (array_sort (compare_priority c2) (toLoad @ allUses), q))"
    using scan uses by (simp add: mergeLevel_def)
  show d: "\<forall>e \<in> set (toLoad @ allUses). priority (deref c2 e) \<noteq> None"
    using scan uses by (rule mergeLevel_defined)
  show "\<forall>e \<in> set allUses. type (deref c2 e) = Some ''use''"
    using allUsesOf_defined [OF uses] by simp
  show "sorted_wrt (precedes c2) (array_sort (compare_priority c2) (toLoad @ allUses))"
    using d by (rule sorted_array_sort)
  show "mset (array_sort (compare_priority c2) (toLoad @ allUses)) = mset toLoad + mset allUses"
    by (simp add: mset_array_sort)
  show "filter (\<lambda>e. priority (deref c2 e) = Some p)
          (array_sort (compare_priority c2) (toLoad @ allUses))
        = filter (\<lambda>e. priority (deref c2 e) = Some p) toLoad
          @ filter (\<lambda>e. priority (deref c2 e) = Some p) allUses" for p
    by (simp add: filter_array_sort)
qed

text \<open>
  The handler \<open>a.js\<close> has no priority and two middleware functions that start at
  priority 6; the handler \<open>b.js\<close> has priority 5. The sort moves the first function
  before both handlers, and \<open>b.js\<close> stays before the second function, which has its
  priority.
\<close>

theorem priority_merge_sorted_stable_witness:
  "snd (snd (scanRouteDirectories (\<lambda>p. None)
     [(''/srv/routes'',
       Inr [File ''a.js'' (Inr (object\<lparr> path := Some ''/x'', use := Some [Ref (UseFunction 7), Ref (UseFunction 8)],
                                  startingUsePriority := Some 6,
                                  methods := Some [(''get'', Function 1)] \<rparr>)),
            File ''b.js'' (Inr (object\<lparr> path := Some ''/y'', priority := Some 5,
                                  methods := Some [(''post'', Function 2)] \<rparr>))])] ([], [])))
     = Inr ([Cached ''/srv/routes/a.js'', Cached ''/srv/routes/b.js''], [])
   \<and> snd (allUsesOf
        (fst (scanRouteDirectories (\<lambda>p. None)
     [(''/srv/routes'',
       Inr [File ''a.js'' (Inr (object\<lparr> path := Some ''/x'', use := Some [Ref (UseFunction 7), Ref (UseFunction 8)],
                                  startingUsePriority := Some 6,
                                  methods := Some [(''get'', Function 1)] \<rparr>)),
            File ''b.js'' (Inr (object\<lparr> path := Some ''/y'', priority := Some 5,
                                  methods := Some [(''post'', Function 2)] \<rparr>))])] ([], [])))
        (\<lambda>d. None) (new_manager 443)
        [Cached ''/srv/routes/a.js'', Cached ''/srv/routes/b.js''])
     = Inr [Own (object\<lparr> run := Some 7, type := Some ''use'', priority := Some 6 \<rparr>),
            Own (object\<lparr> run := Some 8, type := Some ''use'', priority := Some 5 \<rparr>)]
   \<and> snd (mergeLevel (\<lambda>p. None) (\<lambda>d. None) (new_manager 443)
     [(''/srv/routes'',
       Inr [File ''a.js'' (Inr (object\<lparr> path := Some ''/x'', use := Some [Ref (UseFunction 7), Ref (UseFunction 8)],
                                  startingUsePriority := Some 6,
                                  methods := Some [(''get'', Function 1)] \<rparr>)),
            File ''b.js'' (Inr (object\<lparr> path := Some ''/y'', priority := Some 5,
                                  methods := Some [(''post'', Function 2)] \<rparr>))])])
     = Inr ([Own (object\<lparr> run := Some 7, type := Some ''use'', priority := Some 6 \<rparr>),
             Cached ''/srv/routes/b.js'',
             Own (object\<lparr> run := Some 8, type := Some ''use'', priority := Some 5 \<rparr>),
             Cached ''/srv/routes/a.js''], [])"
proof -
  let ?dirs = "[(''/srv/routes'',
       Inr [File ''a.js'' (Inr (object\<lparr> path := Some ''/x'', use := Some [Ref (UseFunction 7), Ref (UseFunction 8)],
                                  startingUsePriority := Some 6,
                                  methods := Some [(''get'', Function 1)] \<rparr>)),
            File ''b.js'' (Inr (object\<lparr> path := Some ''/y'', priority := Some 5,
                                  methods := Some [(''post'', Function 2)] \<rparr>))])]"
  let ?s = "scanRouteDirectories (\<lambda>p. None) ?dirs ([], [])"
  let ?toLoad = "[Cached ''/srv/routes/a.js'', Cached ''/srv/routes/b.js'']"
  let ?u = "allUsesOf (fst ?s) (\<lambda>d. None) (new_manager 443) ?toLoad"
  let ?allUses = "[Own (object\<lparr> run := Some 7, type := Some ''use'', priority := Some 6 \<rparr>),
            Own (object\<lparr> run := Some 8, type := Some ''use'', priority := Some 5 \<rparr>)]"
  have s1: "snd (snd ?s) = Inr (?toLoad, [])"
    by (simp add: eval_defs)
  then have h1: "?s = (fst ?s, fst (snd ?s), Inr (?toLoad, []))"
    by (metis prod.collapse)
  have s2: "snd ?u = Inr ?allUses"
    by (simp add: eval_defs)
  then have h2: "?u = (fst ?u, Inr ?allUses)"
    by (metis prod.collapse)
  have s3: "array_sort (compare_priority (fst ?u)) (?toLoad @ ?allUses)
        = [Own (object\<lparr> run := Some 7, type := Some ''use'', priority := Some 6 \<rparr>),
             Cached ''/srv/routes/b.js'',
             Own (object\<lparr> run := Some 8, type := Some ''use'', priority := Some 5 \<rparr>),
             Cached ''/srv/routes/a.js'']"
    by (simp add: eval_defs)
  from priority_merge_sorted_stable [OF h1 h2]
  have "mergeLevel (\<lambda>p. None) (\<lambda>d. None) (new_manager 443) ?dirs
          = (fst ?u, Inr (array_sort (compare_priority (fst ?u)) (?toLoad @ ?allUses), []))"
    by (rule conjunct1)
  then have "snd (mergeLevel (\<lambda>p. None) (\<lambda>d. None) (new_manager 443) ?dirs)
          = Inr ([Own (object\<lparr> run := Some 7, type := Some ''use'', priority := Some 6 \<rparr>),
             Cached ''/srv/routes/b.js'',
             Own (object\<lparr> run := Some 8, type := Some ''use'', priority := Some 5 \<rparr>),
             Cached ''/srv/routes/a.js''], [])"
    by (simp only: s3 snd_conv)
  with s1 s2 show ?thesis by blast
qed

text \<open>
  Two handlers that name one middleware directory share its module objects. The
  handler \<open>h.js\<close> gives them the priorities 100 and 99, the handler \<open>k.js\<close> then
  gives the same objects \<open>-1\<close> and \<open>-2\<close>, and the sort sees the last values
  only: the middleware that \<open>h.js\<close> asked for above itself is registered below both
  handlers.
\<close>

lemma shared_middleware_last_priority:
  "snd (mergeLevel (\<lambda>p. None)
     (\<lambda>d. if d = ''/srv/uses'' then
        Some (Dir ''uses'' (Inl (LoadError ''MODULE_NOT_FOUND''))
          [File ''a.js'' (Inr (object\<lparr> run := Some 1 \<rparr>)),
           File ''b.js'' (Inr (object\<lparr> priority := Some 5, run := Some 2 \<rparr>))])
      else None)
     (new_manager 443)
     [(''/srv/routes'',
       Inr [File ''h.js'' (Inr (object\<lparr> path := Some ''/h'', use := Some [Ref (UseName ''/srv/uses'')],
                                  startingUsePriority := Some 100,
                                  methods := Some [(''get'', Function 8)] \<rparr>)),
            File ''k.js'' (Inr (object\<lparr> path := Some ''/k'', use := Some [Ref (UseName ''/srv/uses'')],
                                  methods := Some [(''get'', Function 9)] \<rparr>))])])
   = Inr ([Cached ''/srv/routes/h.js'', Cached ''/srv/routes/k.js'',
           Cached ''/srv/uses/b.js'', Cached ''/srv/uses/b.js'',
           Cached ''/srv/uses/a.js'', Cached ''/srv/uses/a.js''], [])
   \<and> map (\<lambda>e. priority (deref (fst (mergeLevel (\<lambda>p. None)
     (\<lambda>d. if d = ''/srv/uses'' then
        Some (Dir ''uses'' (Inl (LoadError ''MODULE_NOT_FOUND''))
          [File ''a.js'' (Inr (object\<lparr> run := Some 1 \<rparr>)),
           File ''b.js'' (Inr (object\<lparr> priority := Some 5, run := Some 2 \<rparr>))])
      else None)
     (new_manager 443)
     [(''/srv/routes'',
       Inr [File ''h.js'' (Inr (object\<lparr> path := Some ''/h'', use := Some [Ref (UseName ''/srv/uses'')],
                                  startingUsePriority := Some 100,
                                  methods := Some [(''get'', Function 8)] \<rparr>)),
            File ''k.js'' (Inr (object\<lparr> path := Some ''/k'', use := Some [Ref (UseName ''/srv/uses'')],
                                  methods := Some [(''get'', Function 9)] \<rparr>))])])) e))
       [Cached ''/srv/routes/h.js'', Cached ''/srv/routes/k.js'',
        Cached ''/srv/uses/b.js'', Cached ''/srv/uses/a.js'']
     = [Some 0, Some 0, Some (- 1), Some (- 2)]"
  by (simp add: eval_defs)

subsection \<open>Where the child routers are mounted\<close>















subsection \<open>The priorities of unlabelled middleware\<close>

lemma settled_refl: "settled c c"
  by (simp add: settled_def)

lemma settled_trans: "settled a b \<Longrightarrow> settled b c \<Longrightarrow> settled a c"
  by (simp add: settled_def)

lemma assign_other: "assign c u f = (c1, u') \<Longrightarrow> e \<noteq> u' \<Longrightarrow> deref c1 e = deref c e"
  by (cases u; cases e) (auto split: if_splits)

lemma require_settled: "require c p node = (c', r) \<Longrightarrow> settled c c'"
proof -
  assume a: "require c p node = (c', r)"
  show ?thesis
  proof (cases "c p")
    case (Some v)
    with a show ?thesis by (simp add: require_def settled_refl)
  next
    case None
    show ?thesis
    proof (cases "load node")
      case (Inl e)
      with a None show ?thesis by (simp add: require_def settled_refl)
    next
      case (Inr v)
      with a None have c': "c' = c(p \<mapsto> v)" by (simp add: require_def)
      have "priority (deref c' e) = Some x" if "priority (deref c e) = Some x" for e x
      proof (cases "e = Cached p")
        case True
        with that None show ?thesis by (simp add: object_def)
      next
        case False
        then have "deref c' e = deref c e" unfolding c' by (cases e) auto
        with that show ?thesis by simp
      qed
      then show ?thesis by (simp add: settled_def)
    qed
  qed
qed

lemma loadUse_settled: "loadUse c dir node toLoad = (c', logs, r) \<Longrightarrow> settled c c'"
proof -
  assume a: "loadUse c dir node toLoad = (c', logs, r)"
  obtain c1 r1 where q: "require c (join dir (filepath node)) node = (c1, r1)"
    by (cases "require c (join dir (filepath node)) node")
  have k1: "settled c c1" using q by (rule require_settled)
  show ?thesis
  proof (cases r1)
    case (Inl e)
    with a q k1 show ?thesis by (simp add: loadUse_def)
  next
    case (Inr u)
    show ?thesis
    proof (cases "run (deref c1 u) \<noteq> None \<and> falsy (priority (deref c1 u))")
      case False
      with a q Inr have "c' = c1" by (auto simp: loadUse_def split: if_splits)
      with k1 show ?thesis by simp
    next
      case True
      obtain c2 u' where s: "assign c1 u (\<lambda>v. v\<lparr> priority := Some 0 \<rparr>) = (c2, u')"
        by (cases "assign c1 u (\<lambda>v. v\<lparr> priority := Some 0 \<rparr>)")
      with a q Inr True have c': "c' = c2" by (simp add: loadUse_def)
      have "priority (deref c2 e) = Some x" if "priority (deref c1 e) = Some x" for e x
      proof (cases "e = u'")
        case False
        from assign_other [OF s False] that show ?thesis by simp
      next
        case e: True
        show ?thesis
        proof (cases u)
          case (Cached p)
          with s e have "e = u" by auto
          with that True have "x = 0" by (simp add: falsy_def)
          with assign_deref [OF s] e show ?thesis by simp
        next
          case (Own v)
          with s have "c2 = c1" by simp
          with that show ?thesis by simp
        qed
      qed
      then have "settled c1 c2" by (simp add: settled_def)
      with k1 c' show ?thesis by (blast intro: settled_trans)
    qed
  qed
qed

lemma getUses_settled: "getUses c fs m u = (c', logs, r) \<Longrightarrow> settled c c'"
  by (rule getUses_preserves [where R = settled])
     (blast intro: settled_refl settled_trans loadUse_settled)+

lemma assignPriorities_other:
  "assignPriorities c specific us st = (c', es, st') \<Longrightarrow> e \<notin> set es \<Longrightarrow> deref c' e = deref c e"
proof (induction us arbitrary: c c' st es st')
  case Nil
  then show ?case by (cases st) simp
next
  case (Cons u us)
  obtain fb i where st: "st = (fb, i)" by (cases st)
  define q where "q = (case specificAt specific i of Some q \<Rightarrow> q | None \<Rightarrow> fb)"
  define st1 where
    "st1 = (case specificAt specific i of Some q \<Rightarrow> (fb, i + 1) | None \<Rightarrow> (decrement fb, i + 1))"
  obtain c1 u' where a: "assign c u (\<lambda>v. v\<lparr> type := Some ''use'', priority := Some q \<rparr>) = (c1, u')"
    by (cases "assign c u (\<lambda>v. v\<lparr> type := Some ''use'', priority := Some q \<rparr>)")
  obtain c2 us2 st2 where r: "assignPriorities c1 specific us st1 = (c2, us2, st2)"
    by (cases "assignPriorities c1 specific us st1")
  from Cons.prems(1) st a r have c': "c' = c2" and es: "es = u' # us2"
    by (auto simp: q_def st1_def split: option.splits)
  from Cons.prems(2) es have "e \<noteq> u'" "e \<notin> set us2" by auto
  with assign_other [OF a] Cons.IH [OF r] c' show ?case by simp
qed

lemma upt_shift: "[0..<Suc n] = 0 # map Suc [0..<n]"
  by (simp add: upt_conv_Cons map_Suc_upt del: upt_Suc)

lemma upt_split: "[0..<a + b] = [0..<a] @ map (\<lambda>k. k + a) [0..<b]"
  by (induction b) simp_all

lemma assignPriorities_fallback:
  "assignPriorities c None uses (s, i) = (c', es, st) \<Longrightarrow> distinct es \<Longrightarrow>
   - (2 ^ 53) \<le> s - int (length uses) \<Longrightarrow>
   map (\<lambda>e. priority (deref c' e)) es = map (\<lambda>k. Some (s - int k)) [0..<length uses]
   \<and> length es = length uses
   \<and> st = (s - int (length uses), i + length uses)"
proof (induction uses arbitrary: c c' s i es st)
  case Nil
  then show ?case by simp
next
  case (Cons u uses)
  obtain c1 u' where a: "assign c u (\<lambda>v. v\<lparr> type := Some ''use'', priority := Some s \<rparr>) = (c1, u')"
    by (cases "assign c u (\<lambda>v. v\<lparr> type := Some ''use'', priority := Some s \<rparr>)")
  from Cons.prems(3) have d: "decrement s = s - 1" by (simp add: decrement_def)
  obtain c2 es' st' where r: "assignPriorities c1 None uses (s - 1, i + 1) = (c2, es', st')"
    by (cases "assignPriorities c1 None uses (s - 1, i + 1)")
  with Cons.prems(1) a d have c': "c' = c2" and es: "es = u' # es'" and st: "st = st'"
    by (simp_all add: specificAt_def)
  from Cons.prems(2) es have n: "u' \<notin> set es'" and d': "distinct es'" by simp_all
  from Cons.prems(3) have b: "- (2 ^ 53) \<le> s - 1 - int (length uses)" by simp
  from Cons.IH [OF r d' b] have
    ih1: "map (\<lambda>e. priority (deref c2 e)) es' = map (\<lambda>k. Some (s - 1 - int k)) [0..<length uses]" and
    ih2: "length es' = length uses" and
    ih3: "st' = (s - 1 - int (length uses), i + 1 + length uses)"
    by simp_all
  from assignPriorities_other [OF r n] assign_deref [OF a]
  have u: "priority (deref c2 u') = Some s" by simp
  have "map (\<lambda>k. Some (s - int k)) [0..<length (u # uses)]
          = Some s # map (\<lambda>k. Some (s - 1 - int k)) [0..<length uses]"
    by (simp add: upt_shift comp_def del: upt_Suc)
  with c' es st u ih1 ih2 ih3 show ?case by simp
qed

lemma resolveUses_frame:
  "resolveUses c fs m specific us st = (c', Inr es) \<Longrightarrow> e \<notin> set es \<Longrightarrow>
   priority (deref c e) = Some x \<Longrightarrow> priority (deref c' e) = Some x"
proof (induction us arbitrary: c c' st es)
  case Nil
  then show ?case by simp
next
  case (Cons u us)
  from Cons.prems(1) obtain c1 l1 uses c2 es1 st2 es2 where
    g: "getUses c fs m u = (c1, l1, Inr (Uses uses))" and
    a: "assignPriorities c1 specific uses st = (c2, es1, st2)" and
    r: "resolveUses c2 fs m specific us st2 = (c', Inr es2)" and
    es: "es = es1 @ es2"
    by (auto split: prod.splits sum.splits uses_result.splits)
  from Cons.prems(2) es have n1: "e \<notin> set es1" and n2: "e \<notin> set es2" by simp_all
  from getUses_settled [OF g] Cons.prems(3) have "priority (deref c1 e) = Some x"
    by (simp add: settled_def)
  with assignPriorities_other [OF a n1] have "priority (deref c2 e) = Some x" by simp
  with Cons.IH [OF r n2] show ?case by simp
qed

lemma resolveUses_fallback:
  "resolveUses c fs m None us (s, i) = (c', Inr es) \<Longrightarrow> distinct es \<Longrightarrow>
   - (2 ^ 53) \<le> s - int (length es) \<Longrightarrow>
   map (\<lambda>e. priority (deref c' e)) es = map (\<lambda>k. Some (s - int k)) [0..<length es]"
proof (induction us arbitrary: c c' s i es)
  case Nil
  then show ?case by simp
next
  case (Cons u us)
  from Cons.prems(1) obtain c1 l1 uses c2 es1 st2 es2 where
    g: "getUses c fs m u = (c1, l1, Inr (Uses uses))" and
    a: "assignPriorities c1 None uses (s, i) = (c2, es1, st2)" and
    r0: "resolveUses c2 fs m None us st2 = (c', Inr es2)" and
    es: "es = es1 @ es2"
    by (auto split: prod.splits sum.splits uses_result.splits)
  from Cons.prems(2) es have d1: "distinct es1" and d2: "distinct es2"
    and dj: "set es1 \<inter> set es2 = {}" by simp_all
  have l: "length es1 = length uses"
    using a by (induction uses arbitrary: c1 s i c2 es1 st2)
               (auto split: option.splits prod.splits)
  from Cons.prems(3) es l have b1: "- (2 ^ 53) \<le> s - int (length uses)" by simp
  from assignPriorities_fallback [OF a d1 b1] have
    p1: "map (\<lambda>e. priority (deref c2 e)) es1 = map (\<lambda>k. Some (s - int k)) [0..<length uses]" and
    st: "st2 = (s - int (length uses), i + length uses)"
    by simp_all
  from r0 st have r: "resolveUses c2 fs m None us (s - int (length uses), i + length uses) = (c', Inr es2)"
    by simp
  from Cons.prems(3) es l have b2: "- (2 ^ 53) \<le> s - int (length uses) - int (length es2)" by simp
  from Cons.IH [OF r d2 b2] have
    p2: "map (\<lambda>e. priority (deref c' e)) es2
           = map (\<lambda>k. Some (s - int (length uses) - int k)) [0..<length es2]" .
  have "priority (deref c' e) = priority (deref c2 e)" if "e \<in> set es1" for e
  proof -
    from that dj have n: "e \<notin> set es2" by auto
    from assignPriorities_defined [OF a] that obtain x where "priority (deref c2 e) = Some x"
      by auto
    with resolveUses_frame [OF r n] show ?thesis by simp
  qed
  then have "map (\<lambda>e. priority (deref c' e)) es1 = map (\<lambda>e. priority (deref c2 e)) es1"
    by simp
  with p1 have p1': "map (\<lambda>e. priority (deref c' e)) es1 = map (\<lambda>k. Some (s - int k)) [0..<length es1]"
    using l by simp
  have "map (\<lambda>k. Some (s - int k)) [0..<length es1 + length es2]
        = map (\<lambda>k. Some (s - int k)) [0..<length es1]
          @ map (\<lambda>k. Some (s - int (length es1) - int k)) [0..<length es2]"
    by (simp add: upt_split [of "length es1" "length es2"] comp_def algebra_simps)
  with es p1' p2 l show ?case by simp
qed

text \<open>
  Without \<open>specificUsePriorities\<close> the middleware of a handler gets the priorities
  \<open>s\<close>, \<open>s - 1\<close>, \<open>s - 2\<close> and so on, in the order it is met, where \<open>s\<close> is the
  starting priority the loop computes, as long as no middleware object is met twice
  and the counter stays in the range in which \<open>fallbackPriority--\<close> is exact.
\<close>

lemma unlabelled_priorities_decrease:
  assumes "use (deref c route) = Some us" and "us \<noteq> []"
    and "specificUsePriorities (deref c route) = None"
    and "localUses c fs m route = (c', Inr es)"
    and "distinct es"
    and "- (2 ^ 53) \<le> startingPriority (startingUsePriority (deref c route)) - int (length es)"
  shows "map (\<lambda>e. priority (deref c' e)) es
           = map (\<lambda>k. Some (startingPriority (startingUsePriority (deref c route)) - int k))
               [0..<length es]"
  using assms resolveUses_fallback by (simp add: localUses_def)

text \<open>
  At \<open>- (2 ^ 53)\<close> the counter stops: two unlabelled middleware functions get the
  same priority.
\<close>

lemma fallback_saturates:
  "snd (localUses
     [''/srv/routes/a.js'' \<mapsto>
        object\<lparr> path := Some ''/x'', priority := Some 0,
                use := Some [Ref (UseFunction 7), Ref (UseFunction 8)],
                startingUsePriority := Some (- (2 ^ 53)),
                methods := Some [(''get'', Function 1)],
                validMethods := Some [''get''], filename := Some ''a.js'' \<rparr>]
     (\<lambda>d. None) (new_manager 443) (Cached ''/srv/routes/a.js''))
   = Inr [Own (object\<lparr> run := Some 7, type := Some ''use'', priority := Some (- (2 ^ 53)) \<rparr>),
          Own (object\<lparr> run := Some 8, type := Some ''use'', priority := Some (- (2 ^ 53)) \<rparr>)]"
  by (simp add: eval_defs)

lemma startingPriority_nonzero: "s \<noteq> 0 \<Longrightarrow> startingPriority (Some s) = s"
  by (simp add: startingPriority_def)

text \<open>
  Claim C5. The claim has the priorities start at the \<open>startingUsePriority\<close> of the
  handler. The loop takes \<open>route.startingUsePriority || -1\<close>, so a handler that sets
  \<open>startingUsePriority\<close> to 0 gets the default: its two unlabelled middleware
  functions get the priorities \<open>-1\<close> and \<open>-2\<close>, not 0 and \<open>-1\<close>, and the merge
  of its directory puts them in this order after the handler.
\<close>

theorem starting_priority_zero_ignored:
  "snd (localUses
     [''/srv/routes/a.js'' \<mapsto>
        object\<lparr> path := Some ''/x'', priority := Some 0,
                use := Some [Ref (UseFunction 7), Ref (UseFunction 8)],
                startingUsePriority := Some 0,
                methods := Some [(''get'', Function 1)],
                validMethods := Some [''get''], filename := Some ''a.js'' \<rparr>]
     (\<lambda>d. None) (new_manager 443) (Cached ''/srv/routes/a.js''))
   = Inr [Own (object\<lparr> run := Some 7, type := Some ''use'', priority := Some (- 1) \<rparr>),
          Own (object\<lparr> run := Some 8, type := Some ''use'', priority := Some (- 2) \<rparr>)]
   \<and> snd (mergeLevel (\<lambda>p. None) (\<lambda>d. None) (new_manager 443)
       [(''/srv/routes'',
         Inr [File ''a.js'' (Inr (object\<lparr> path := Some ''/x'', priority := Some 0,
                use := Some [Ref (UseFunction 7), Ref (UseFunction 8)],
                startingUsePriority := Some 0,
                methods := Some [(''get'', Function 1)] \<rparr>))])])
   = Inr ([Cached ''/srv/routes/a.js'',
           Own (object\<lparr> run := Some 7, type := Some ''use'', priority := Some (- 1) \<rparr>),
           Own (object\<lparr> run := Some 8, type := Some ''use'', priority := Some (- 2) \<rparr>)], [])"
  by (simp add: eval_defs)

subsection \<open>A module that fails to load\<close>

lemma load_failure_is_fatal:
  "isJs (filepath node) \<Longrightarrow> c (join dir (filepath node)) = None \<Longrightarrow> load node = Inl e \<Longrightarrow>
   scanRoutes c dir (node # files) (toLoad, q)
     = (c, [ErrorWhileLoading (filepath node) e],
        Inl (TypeError ''Cannot read properties of undefined (reading path)''))"
  by (simp add: loadRoute_def require_def Let_def)

lemma use_load_failure_is_fatal:
  "isJs n \<Longrightarrow> c (join dir n) = None \<Longrightarrow>
   scanUses c dir (File n (Inl e) # files) toLoad
     = (c, [ErrorWhileLoading n e],
        Inl (TypeError ''Cannot read properties of undefined (reading run)''))"
  by (simp add: loadUse_def require_def)

text \<open>
  Claim C6. The claim has a file whose load fails logged and skipped. The loop logs
  the error, and then, with no \<open>continue\<close> in the \<open>catch\<close> block, reads
  \<open>route.path\<close> on the undefined \<open>route\<close>: the \<open>TypeError\<close> ends the scan, the
  file after the failing one is never loaded (the cache stays empty), and
  \<open>loadRoutes\<close> throws.
\<close>

theorem load_failure_aborts_scan:
  "scanRoutes (\<lambda>p. None) ''/srv/routes''
     [File ''bad.js'' (Inl (LoadError ''SyntaxError: Unexpected token'')),
      File ''good.js'' (Inr (object\<lparr> path := Some ''/x'', methods := Some [(''get'', Function 1)] \<rparr>))]
     ([], [])
   = (\<lambda>p. None,
      [ErrorWhileLoading ''bad.js'' (LoadError ''SyntaxError: Unexpected token'')],
      Inl (TypeError ''Cannot read properties of undefined (reading path)''))
  \<and> loadRoutes (\<lambda>p. None) (\<lambda>d. None) (new_manager 443)
     [(''/srv/routes'',
       Inr [File ''bad.js'' (Inl (LoadError ''SyntaxError: Unexpected token'')),
            File ''good.js'' (Inr (object\<lparr> path := Some ''/x'', methods := Some [(''get'', Function 1)] \<rparr>))])]
   = (\<lambda>p. None, Inl (TypeError ''Cannot read properties of undefined (reading path)''))"
  by (simp add: eval_defs)

subsection \<open>Middleware in subdirectories\<close>

text \<open>
  Claim C7. The claim has every loadable module under a named directory in the
  result. \<open>getUses\<close> calls itself on a subdirectory and drops what the call returns:
  the module \<open>audit.js\<close> in the subdirectory \<open>extra\<close> is loaded into the cache and
  is missing from the result, which holds \<open>auth.js\<close> alone, with the default
  priority 0 written into it.
\<close>

theorem nested_middleware_dropped:
  "snd (getUses (\<lambda>p. None)
     (\<lambda>d. if d = ''/srv/uses'' then
        Some (Dir ''uses'' (Inl (LoadError ''MODULE_NOT_FOUND''))
          [File ''auth.js'' (Inr (object\<lparr> run := Some 1, name := Some ''auth'' \<rparr>)),
           Dir ''extra'' (Inl (LoadError ''MODULE_NOT_FOUND''))
             [File ''audit.js'' (Inr (object\<lparr> priority := Some 5, run := Some 2,
                                      name := Some ''audit'' \<rparr>))]])
      else None)
     (new_manager 443) (UseName ''/srv/uses''))
   = ([], Inr (Uses [Cached ''/srv/uses/auth.js'']))
   \<and> fst (getUses (\<lambda>p. None)
     (\<lambda>d. if d = ''/srv/uses'' then
        Some (Dir ''uses'' (Inl (LoadError ''MODULE_NOT_FOUND''))
          [File ''auth.js'' (Inr (object\<lparr> run := Some 1, name := Some ''auth'' \<rparr>)),
           Dir ''extra'' (Inl (LoadError ''MODULE_NOT_FOUND''))
             [File ''audit.js'' (Inr (object\<lparr> priority := Some 5, run := Some 2,
                                      name := Some ''audit'' \<rparr>))]])
      else None)
     (new_manager 443) (UseName ''/srv/uses''))
   = [''/srv/uses/auth.js'' \<mapsto> object\<lparr> run := Some 1, name := Some ''auth'', priority := Some 0 \<rparr>,
      ''/srv/uses/extra/audit.js'' \<mapsto> object\<lparr> priority := Some 5, run := Some 2,
                                      name := Some ''audit'' \<rparr>]"
  by (simp add: eval_defs)

subsection \<open>A vhost that fails to build\<close>

lemma loadVhostInner_failure:
  assumes "\<forall>x \<in> set pre. \<not> (isDirectory x \<and> filepath x = ''routes'')"
    and "loadRoutes c fs m [(join dir ''routes'', Inr cs)] = (c', Inl e)"
  shows "loadVhostInner c fs m base vname dir (pre @ Dir ''routes'' l cs # post) app
           = (c', app, Some e)"
  using assms by (induction pre) simp_all

lemma loadVhostFiles_append:
  "loadVhostFiles c fs m base dir (pre @ post) app =
     (case loadVhostFiles c fs m base dir pre app of
        (c', app', Some e) \<Rightarrow> (c', app', Some e)
      | (c', app', None) \<Rightarrow> loadVhostFiles c' fs m base dir post app')"
  by (induction pre arbitrary: c app) (auto split: option.splits sum.splits prod.splits)

lemma loadVhostDirectories_append:
  "loadVhostDirectories c fs m base (pre @ post) app =
     (case loadVhostDirectories c fs m base pre app of
        (c', app', Some e) \<Rightarrow> (c', app', Some e)
      | (c', app', None) \<Rightarrow> loadVhostDirectories c' fs m base post app')"
  by (induction pre arbitrary: c app) (auto split: option.splits sum.splits prod.splits)

text \<open>
  Claim C8, as amended. \<open>loadVhosts\<close> does not catch an error of \<open>loadRoutes\<close>. When
  the vhost directories before \<open>root\<close> and the entries of \<open>root\<close> before the vhost
  \<open>n\<close> are processed without an error, and \<open>loadRoutes\<close> throws \<open>e\<close> on the
  \<open>routes\<close> directory of \<open>n\<close>, then \<open>loadVhosts\<close> throws \<open>e\<close>: the application
  holds the vhosts registered before (\<open>app1\<close>), whatever comes after \<open>n\<close> in the
  listing of \<open>root\<close> and in the vhost directories after \<open>root\<close>.
\<close>

theorem vhost_failure_propagates:
  assumes "vhostDirectories m = roots_before @ root # roots_after"
    and "loadVhostDirectories c fs m base roots_before [] = (c0, app0, None)"
    and "readdirSync fs root = Inr (before @ Dir n l (pre @ Dir ''routes'' l' cs # post) # after)"
    and "loadVhostFiles c0 fs m base root before app0 = (c1, app1, None)"
    and "vhostMatch n = Some vname"
    and "\<forall>x \<in> set pre. \<not> (isDirectory x \<and> filepath x = ''routes'')"
    and "loadRoutes c1 fs m [(join (join root n) ''routes'', Inr cs)] = (c2, Inl e)"
  shows "loadVhosts c fs m base = (c2, app1, Some e)"
proof -
  have "loadVhostInner c1 fs m base vname (join root n) (pre @ Dir ''routes'' l' cs # post) app1
          = (c2, app1, Some e)"
    using assms(6,7) by (rule loadVhostInner_failure)
  with assms(5) have
    "loadVhostFiles c1 fs m base root (Dir n l (pre @ Dir ''routes'' l' cs # post) # after) app1
       = (c2, app1, Some e)"
    by simp
  with assms(4) have
    "loadVhostFiles c0 fs m base root
       (before @ Dir n l (pre @ Dir ''routes'' l' cs # post) # after) app0
       = (c2, app1, Some e)"
    by (simp add: loadVhostFiles_append)
  with assms(3) have "loadVhostDirectories c0 fs m base (root # roots_after) app0 = (c2, app1, Some e)"
    by simp
  with assms(2) have
    "loadVhostDirectories c fs m base (roots_before @ root # roots_after) [] = (c2, app1, Some e)"
    by (simp add: loadVhostDirectories_append)
  with assms(1) show ?thesis by (simp add: loadVhosts_def)
qed

text \<open>
  Three vhosts, listed as \<open>api\<close>, \<open>blog\<close>, \<open>shop\<close>. The handler of \<open>blog\<close> has
  a path and no \<open>methods\<close>, so \<open>Object.keys\<close> throws while its tree is built:
  \<open>api\<close> is registered, \<open>blog\<close> and \<open>shop\<close> are not, and the error is thrown.
\<close>

theorem vhost_failure_propagates_witness:
  "vhostMatch ''blog.{}'' = Some ''blog''
   \<and> snd (loadRoutes (\<lambda>p. None) (\<lambda>d. None) (new_manager 443)
       [(''/srv/vhosts/blog.{}/routes'',
         Inr [File ''index.js'' (Inr (object\<lparr> path := Some ''/'' \<rparr>))])])
     = Inl (TypeError ''Cannot convert undefined or null to object'')
   \<and> snd (loadVhosts (\<lambda>p. None)
       (\<lambda>d. if d = ''/srv/vhosts'' then
          Some (Dir ''vhosts'' (Inl (LoadError ''MODULE_NOT_FOUND''))
            [Dir ''api.{}'' (Inl (LoadError ''MODULE_NOT_FOUND''))
               [Dir ''routes'' (Inl (LoadError ''MODULE_NOT_FOUND''))
                  [File ''index.js'' (Inr (object\<lparr> path := Some ''/v1'',
                      methods := Some [(''get'', Function 1)] \<rparr>))]],
             Dir ''blog.{}'' (Inl (LoadError ''MODULE_NOT_FOUND''))
               [Dir ''routes'' (Inl (LoadError ''MODULE_NOT_FOUND''))
                  [File ''index.js'' (Inr (object\<lparr> path := Some ''/'' \<rparr>))]],
             Dir ''shop.{}'' (Inl (LoadError ''MODULE_NOT_FOUND''))
               [Dir ''routes'' (Inl (LoadError ''MODULE_NOT_FOUND''))
                  [File ''index.js'' (Inr (object\<lparr> path := Some ''/'',
                      methods := Some [(''get'', Function 2)] \<rparr>))]]])
        else None)
       ((new_manager 443)\<lparr> vhostDirectories := [''/srv/vhosts''] \<rparr>) ''example.com'')
     = ([RegVhost ''api.example.com'' [RegMethod ''get'' ''/v1'' 1]],
        Some (TypeError ''Cannot convert undefined or null to object''))"
proof -
  let ?nomod = "Inl (LoadError ''MODULE_NOT_FOUND'') :: js_error + module"
  let ?api = "Dir ''api.{}'' ?nomod
               [Dir ''routes'' ?nomod
                  [File ''index.js'' (Inr (object\<lparr> path := Some ''/v1'',
                      methods := Some [(''get'', Function 1)] \<rparr>))]]"
  let ?cs = "[File ''index.js'' (Inr (object\<lparr> path := Some ''/'' \<rparr>))]"
  let ?shop = "Dir ''shop.{}'' ?nomod
               [Dir ''routes'' ?nomod
                  [File ''index.js'' (Inr (object\<lparr> path := Some ''/'',
                      methods := Some [(''get'', Function 2)] \<rparr>))]]"
  let ?fs = "\<lambda>d. if d = ''/srv/vhosts'' then
          Some (Dir ''vhosts'' ?nomod
            [?api, Dir ''blog.{}'' ?nomod [Dir ''routes'' ?nomod ?cs], ?shop])
        else None"
  let ?m = "(new_manager 443)\<lparr> vhostDirectories := [''/srv/vhosts''] \<rparr>"
  let ?e = "TypeError ''Cannot convert undefined or null to object''"
  let ?app1 = "[RegVhost ''api.example.com'' [RegMethod ''get'' ''/v1'' 1]]"
  let ?f = "loadVhostFiles (\<lambda>p. None) ?fs ?m ''example.com'' ''/srv/vhosts'' [?api] []"
  let ?r = "loadRoutes (fst ?f) ?fs ?m [(join (join ''/srv/vhosts'' ''blog.{}'') ''routes'', Inr ?cs)]"
  have h1: "vhostDirectories ?m = [] @ ''/srv/vhosts'' # []"
    by simp
  have h2: "loadVhostDirectories (\<lambda>p. None) ?fs ?m ''example.com'' [] [] = (\<lambda>p. None, [], None)"
    by simp
  have h3: "readdirSync ?fs ''/srv/vhosts''
              = Inr ([?api] @ Dir ''blog.{}'' ?nomod ([] @ Dir ''routes'' ?nomod ?cs # []) # [?shop])"
    by (simp add: readdirSync_def)
  have "snd ?f = (?app1, None)"
    by (simp add: matchHere_def isSpace_def eval_defs)
  then have h4: "?f = (fst ?f, ?app1, None)"
    by (metis prod.collapse)
  have h5: "vhostMatch ''blog.{}'' = Some ''blog''"
    by (simp add: matchHere_def isSpace_def)
  have h6: "\<forall>x \<in> set []. \<not> (isDirectory x \<and> filepath x = ''routes'')"
    by simp
  have "snd ?r = Inl ?e"
    by (simp add: matchHere_def isSpace_def eval_defs)
  then have h7: "?r = (fst ?r, Inl ?e)"
    by (metis prod.collapse)
  from vhost_failure_propagates [OF h1 h2 h3 h4 h5 h6 h7]
  have "snd (loadVhosts (\<lambda>p. None) ?fs ?m ''example.com'') = (?app1, Some ?e)"
    by simp
  moreover have "snd (loadRoutes (\<lambda>p. None) (\<lambda>d. None) (new_manager 443)
       [(''/srv/vhosts/blog.{}/routes'', Inr ?cs)]) = Inl ?e"
    by (simp add: eval_defs)
  ultimately show ?thesis using h5 by blast
qed

text \<open>
  Two vhosts, listed as \<open>blog\<close> and \<open>shop\<close>. The build of \<open>blog\<close> fails and
  \<open>shop\<close>, which builds when it stands alone, is not registered.
\<close>

theorem vhost_failure_counterexample:
  "snd (loadVhosts (\<lambda>p. None)
     (\<lambda>d. if d = ''/srv/vhosts'' then
        Some (Dir ''vhosts'' (Inl (LoadError ''MODULE_NOT_FOUND''))
          [Dir ''blog.{}'' (Inl (LoadError ''MODULE_NOT_FOUND''))
             [Dir ''routes'' (Inl (LoadError ''MODULE_NOT_FOUND''))
                [File ''index.js'' (Inr (object\<lparr> path := Some ''/'' \<rparr>))]],
           Dir ''shop.{}'' (Inl (LoadError ''MODULE_NOT_FOUND''))
             [Dir ''routes'' (Inl (LoadError ''MODULE_NOT_FOUND''))
                [File ''index.js'' (Inr (object\<lparr> path := Some ''/'',
                    methods := Some [(''get'', Function 1)] \<rparr>))]]])
      else None)
     ((new_manager 443)\<lparr> vhostDirectories := [''/srv/vhosts''] \<rparr>) ''example.com'')
   = ([], Some (TypeError ''Cannot convert undefined or null to object''))
  \<and> snd (loadVhosts (\<lambda>p. None)
     (\<lambda>d. if d = ''/srv/vhosts'' then
        Some (Dir ''vhosts'' (Inl (LoadError ''MODULE_NOT_FOUND''))
          [Dir ''shop.{}'' (Inl (LoadError ''MODULE_NOT_FOUND''))
             [Dir ''routes'' (Inl (LoadError ''MODULE_NOT_FOUND''))
                [File ''index.js'' (Inr (object\<lparr> path := Some ''/'',
                    methods := Some [(''get'', Function 1)] \<rparr>))]]])
      else None)
     ((new_manager 443)\<lparr> vhostDirectories := [''/srv/vhosts''] \<rparr>) ''example.com'')
   = ([RegVhost ''shop.example.com'' [RegMethod ''get'' ''/'' 1]], None)"
  by (simp add: loadVhosts_def new_manager_def matchHere_def isSpace_def eval_defs)

end
